(* ===== verification/Prelude.thy ===== *)
theory Prelude
  imports Main "HOL-Library.Multiset"
begin

text \<open>
  Shared vocabulary of the development: the names of the model's string types, the
  collection of definitions that evaluation of concrete inputs unfolds, and generic list
  lemmas that the component theories use.
\<close>

type_synonym js_string = string
  \<comment> \<open>a JavaScript string; each UTF-16 code unit is modelled by one 8-bit \<open>char\<close>\<close>
type_synonym canonical_path = string
  \<comment> \<open>the \<open>__path\<close> strings of the tree nodes and the highlight target\<close>

named_theorems js_eval "definitions unfolded to evaluate the model on concrete inputs"

subsection \<open>Lists\<close>

lemma dropWhile_hd_not:
  "xs \<noteq> [] \<Longrightarrow> \<not> P (hd xs) \<Longrightarrow> dropWhile P xs = xs"
  by (cases xs) auto

lemma takeWhile_all_append:
  "\<forall>x \<in> set xs. P x \<Longrightarrow> (ys = [] \<or> \<not> P (hd ys)) \<Longrightarrow> takeWhile P (xs @ ys) = xs"
  by (induction xs) (auto simp: takeWhile_eq_Nil_iff)

lemma rev_dropWhile_rev_id:
  "xs = [] \<or> \<not> P (last xs) \<Longrightarrow> rev (dropWhile P (rev xs)) = xs"
  by (cases xs rule: rev_cases) auto

lemma distinct_filter_split:
  "distinct (map f xs) \<Longrightarrow>
   distinct (map f (filter P xs) @ map f (filter (\<lambda>x. \<not> P x) xs))"
  by (induction xs) auto

lemma sum_list_map_mset_eq:
  fixes f :: "'a \<Rightarrow> 'b::comm_monoid_add"
  assumes "mset xs = mset ys"
  shows "sum_list (map f xs) = sum_list (map f ys)"
proof -
  have "sum_list (map f xs) = sum_mset (image_mset f (mset xs))"
    unfolding mset_map [symmetric] sum_mset_sum_list ..
  also have "\<dots> = sum_mset (image_mset f (mset ys))"
    unfolding assms ..
  also have "\<dots> = sum_list (map f ys)"
    unfolding mset_map [symmetric] sum_mset_sum_list ..
  finally show ?thesis .
qed

lemma map_enumerate_snd: "map (\<lambda>(i, x). f x) (enumerate n xs) = map f xs"
  by (induction xs arbitrary: n) auto

lemma drop_eq_Cons_nth:
  "drop i s = x # r \<Longrightarrow> i < length s \<and> s ! i = x \<and> drop (Suc i) s = r"
proof -
  assume h: "drop i s = x # r"
  then have lt: "i < length s" by (metis drop_eq_Nil not_le_imp_less list.distinct(1))
  with h show ?thesis by (metis Cons_nth_drop_Suc list.inject)
qed

lemma filter_distinct_key:
  "distinct (map f xs) \<Longrightarrow> x \<in> set xs \<Longrightarrow> filter (\<lambda>y. f y = f x) xs = [x]"
proof (induction xs)
  case (Cons y ys)
  show ?case
  proof (cases "y = x")
    case True
    with Cons.prems(1) have "f x \<notin> f ` set ys" by simp
    then have "\<forall>z \<in> set ys. f z \<noteq> f x" by (metis image_eqI)
    with True show ?thesis by (simp add: filter_empty_conv)
  next
    case False
    with Cons.prems have "x \<in> set ys" "f y \<noteq> f x" by auto
    with Cons.IH Cons.prems(1) show ?thesis by simp
  qed
qed simp

end
