(* ===== verification/JsString.thy ===== *)
theory JsString
  imports Prelude
begin

text \<open>
  The JavaScript string built-ins that the components call, modelled from the ECMAScript
  specification (they are not code of the repository, but each models the call on the
  line of \<open>src/\<close> given in the manifest): \<open>String.prototype.trim\<close>, the global
  replacement \<open>s.replace(/"/g, "")\<close>, \<open>String.prototype.split(".")\<close>, \<open>String(n)\<close>
  of an integral number, \<open>parseInt\<close> without radix, and the "array index" test that
  decides \<open>hasOwnProperty\<close> on arrays and strings and the order of
  \<open>Object.entries\<close>. Code units are 8-bit \<open>char\<close>s, so the whitespace set is the
  Latin-1 part of ECMAScript's WhiteSpace and LineTerminator.
\<close>

subsection \<open>Whitespace and trim\<close>

definition js_is_ws :: "char \<Rightarrow> bool" where
  "js_is_ws c \<longleftrightarrow> c \<in> set [CHR 0x09, CHR 0x0A, CHR 0x0B, CHR 0x0C, CHR 0x0D, CHR 0x20, CHR 0xA0]"

definition js_trim :: "js_string \<Rightarrow> js_string" where
  "js_trim s = rev (dropWhile js_is_ws (rev (dropWhile js_is_ws s)))"

subsection \<open>Global replacement of the double quote\<close>

definition strip_quotes :: "js_string \<Rightarrow> js_string" where
  "strip_quotes s = filter (\<lambda>c. c \<noteq> CHR 0x22) s"

subsection \<open>split on one separator character\<close>

text \<open>\<open>"a..b".split(".")\<close> is \<open>["a", "", "b"]\<close> and \<open>"".split(".")\<close> is \<open>[""]\<close>:
  never an empty list.\<close>

fun split_on :: "char \<Rightarrow> js_string \<Rightarrow> js_string list" where
  "split_on c [] = [[]]"
| "split_on c (x # xs) =
     (let ws = split_on c xs in if x = c then [] # ws else (x # hd ws) # tl ws)"

text \<open>The inverse direction: a list of segments, each preceded by a dot, as the code
  builds paths with \<open>`${path}.${k}`\<close>.\<close>

definition dotted :: "js_string list \<Rightarrow> js_string" where
  "dotted segs = concat (map (\<lambda>s. CHR ''.'' # s) segs)"

subsection \<open>Decimal digits and String(n)\<close>

definition is_digit :: "char \<Rightarrow> bool" where
  "is_digit c \<longleftrightarrow> (48::nat) \<le> of_char c \<and> of_char c \<le> (57::nat)"

definition is_hex_digit :: "char \<Rightarrow> bool" where
  "is_hex_digit c \<longleftrightarrow> is_digit c \<or> c \<in> set ''abcdefABCDEF''"

definition digit_value :: "char \<Rightarrow> nat" where
  "digit_value c =
     (if is_digit c then of_char c - 48
      else if c \<in> set ''abcdef'' then of_char c - 87 else of_char c - 55)"

definition radix_val :: "nat \<Rightarrow> js_string \<Rightarrow> nat" where
  "radix_val r s = foldl (\<lambda>acc c. r * acc + digit_value c) 0 s"

abbreviation digits_val :: "js_string \<Rightarrow> nat" where
  "digits_val s \<equiv> radix_val 10 s"

definition digit_char :: "nat \<Rightarrow> char" where
  "digit_char d = ''0123456789'' ! d"

fun show_nat :: "nat \<Rightarrow> js_string" where
  "show_nat n = (if n < 10 then [digit_char n] else show_nat (n div 10) @ [digit_char (n mod 10)])"

declare show_nat.simps [simp del]

text \<open>\<open>String(n)\<close> for an integral number; \<open>-0\<close> prints as \<open>0\<close>, as the int model has it.\<close>

definition show_int :: "int \<Rightarrow> js_string" where
  "show_int i = (if i < 0 then CHR ''-'' # show_nat (nat (- i)) else show_nat (nat i))"

subsection \<open>Array indices\<close>

text \<open>A property key is an array index when \<open>ToString(ToUint32(P)) = P\<close> and
  \<open>ToUint32(P) \<noteq> 2^32 - 1\<close>: the canonical decimal numerals below \<open>2^32 - 1\<close>.\<close>

definition is_index_numeral :: "js_string \<Rightarrow> bool" where
  "is_index_numeral s \<longleftrightarrow> list_all is_digit s \<and> show_nat (digits_val s) = s"

definition is_array_index :: "js_string \<Rightarrow> bool" where
  "is_array_index s \<longleftrightarrow> is_index_numeral s \<and> digits_val s < 2 ^ 32 - 1"

subsection \<open>parseInt without radix\<close>

definition parse_sign :: "js_string \<Rightarrow> int \<times> js_string" where
  "parse_sign s =
     (case s of [] \<Rightarrow> (1, [])
      | c # r \<Rightarrow> if c = CHR ''-'' then (-1, r) else if c = CHR ''+'' then (1, r) else (1, s))"

definition parse_radix :: "js_string \<Rightarrow> nat \<times> js_string" where
  "parse_radix s =
     (if take 2 s = ''0x'' \<or> take 2 s = ''0X'' then (16, drop 2 s) else (10, s))"

definition radix_digit :: "nat \<Rightarrow> char \<Rightarrow> bool" where
  "radix_digit r c = (if r = 16 then is_hex_digit c else is_digit c)"

text \<open>\<open>None\<close> is \<open>NaN\<close>. The model is exact where the JavaScript double is, that is for
  results below \<open>2^53\<close>.\<close>

definition parse_int :: "js_string \<Rightarrow> int option" where
  "parse_int s =
     (let (sign, s2) = parse_sign (dropWhile js_is_ws s);
          (r, s3) = parse_radix s2;
          z = takeWhile (radix_digit r) s3
      in if z = [] then None else Some (sign * int (radix_val r z)))"

declare js_trim_def [js_eval] strip_quotes_def [js_eval] dotted_def [js_eval]
  is_digit_def [js_eval] is_hex_digit_def [js_eval] digit_value_def [js_eval]
  radix_val_def [js_eval] digit_char_def [js_eval] show_nat.simps [js_eval]
  show_int_def [js_eval] is_array_index_def [js_eval] is_index_numeral_def [js_eval] parse_sign_def [js_eval]
  parse_radix_def [js_eval] radix_digit_def [js_eval] parse_int_def [js_eval]
  js_is_ws_def [js_eval]

subsection \<open>Lemmas: digits, String(n) and parseInt\<close>

text \<open>\<open>String(n)\<close> prints canonical numerals: reading them back gives \<open>n\<close>,
  \<open>parseInt\<close> gives \<open>n\<close>, and they are array indices below \<open>2^32 - 1\<close>.\<close>

lemma digit_char_cases:
  assumes "d < (10::nat)"
  shows "d = 0 \<or> d = 1 \<or> d = 2 \<or> d = 3 \<or> d = 4 \<or> d = 5 \<or> d = 6 \<or> d = 7 \<or> d = 8 \<or> d = 9"
  using assms by arith

lemma digit_char_props:
  assumes "d < 10"
  shows "is_digit (digit_char d) \<and> digit_value (digit_char d) = d \<and> \<not> js_is_ws (digit_char d)
    \<and> digit_char d \<noteq> CHR ''-'' \<and> digit_char d \<noteq> CHR ''+'' \<and> digit_char d \<noteq> CHR ''.''
    \<and> digit_char d \<noteq> CHR ''x'' \<and> digit_char d \<noteq> CHR ''X''"
  using digit_char_cases [OF assms] by (elim disjE) (simp_all add: js_eval)

lemma show_nat_ne [simp]: "show_nat n \<noteq> []"
  by (subst show_nat.simps) simp

lemma show_nat_digits: "c \<in> set (show_nat n) \<Longrightarrow> \<exists>d < 10. c = digit_char d"
proof (induction n rule: show_nat.induct)
  case (1 n)
  have m: "\<exists>d < 10. digit_char (n mod 10) = digit_char d"
    by (intro exI [of _ "n mod 10"]) simp
  from "1.prems" show ?case
  proof (subst (asm) show_nat.simps, cases "n < 10")
    case False
    with "1.IH" m show ?thesis
      using "1.prems" by (subst (asm) show_nat.simps) auto
  qed auto
qed

lemma radix_val_snoc: "radix_val r (xs @ [c]) = r * radix_val r xs + digit_value c"
  by (simp add: radix_val_def)

lemma digits_val_show_nat [simp]: "digits_val (show_nat n) = n"
proof (induction n rule: show_nat.induct)
  case (1 n)
  show ?case
  proof (cases "n < 10")
    case True
    then show ?thesis
      by (simp add: show_nat.simps [of n] radix_val_def digit_char_props)
  next
    case False
    with "1.IH" show ?thesis
      by (simp add: show_nat.simps [of n] radix_val_snoc digit_char_props)
  qed
qed

lemma show_nat_all_digit: "list_all is_digit (show_nat n)"
  using show_nat_digits digit_char_props by (fastforce simp: list_all_iff)

lemma is_index_numeral_show_nat [simp]: "is_index_numeral (show_nat n)"
  by (simp add: is_index_numeral_def show_nat_all_digit)

lemma is_array_index_show_nat [simp]: "is_array_index (show_nat n) \<longleftrightarrow> n < 2 ^ 32 - 1"
  by (simp add: is_array_index_def)

lemma show_nat_inj: "show_nat m = show_nat n \<longleftrightarrow> m = n"
  by (metis digits_val_show_nat)

lemma hd_show_nat: "\<exists>d < 10. hd (show_nat n) = digit_char d"
  using show_nat_digits [of "hd (show_nat n)" n] by simp

lemma parse_int_show_nat [simp]: "parse_int (show_nat n) = Some (int n)"
proof -
  obtain d where d: "d < 10" "hd (show_nat n) = digit_char d"
    using hd_show_nat by blast
  then have ws: "dropWhile js_is_ws (show_nat n) = show_nat n"
    by (simp add: dropWhile_hd_not digit_char_props)
  obtain c r where cr: "show_nat n = c # r"
    by (cases "show_nat n") auto
  with d have sign: "parse_sign (show_nat n) = (1, show_nat n)"
    by (simp add: parse_sign_def digit_char_props)
  have notx: "take 2 (show_nat n) \<noteq> ''0x'' \<and> take 2 (show_nat n) \<noteq> ''0X''"
  proof (cases r)
    case Nil
    with cr show ?thesis by simp
  next
    case (Cons c' r')
    then have "c' \<in> set (show_nat n)" using cr by simp
    then obtain d' where "d' < 10" "c' = digit_char d'" using show_nat_digits by blast
    with cr Cons show ?thesis by (simp add: digit_char_props)
  qed
  then have radix: "parse_radix (show_nat n) = (10, show_nat n)"
    by (simp add: parse_radix_def)
  have tw: "takeWhile (radix_digit 10) (show_nat n) = show_nat n"
    using show_nat_all_digit by (simp add: takeWhile_eq_all_conv radix_digit_def list_all_iff)
  show ?thesis
    by (simp add: parse_int_def ws sign radix tw)
qed

subsection \<open>Lemmas: split, dotted paths and trim\<close>

lemma split_on_no_sep: "c \<notin> set w \<Longrightarrow> split_on c w = [w]"
  by (induction w) (auto simp: Let_def)

lemma split_on_sep: "c \<notin> set w \<Longrightarrow> split_on c (w @ c # r) = w # split_on c r"
  by (induction w) (auto simp: Let_def)

lemma dotted_simps [simp]: "dotted [] = []" "dotted (s # ss) = CHR ''.'' # s @ dotted ss"
  by (simp_all add: dotted_def)

lemma split_on_dotted:
  "CHR ''.'' \<notin> set w \<Longrightarrow> \<forall>s \<in> set segs. CHR ''.'' \<notin> set s \<Longrightarrow>
   split_on CHR ''.'' (w @ dotted segs) = w # segs"
proof (induction segs arbitrary: w)
  case Nil
  then show ?case by (simp add: split_on_no_sep)
next
  case (Cons s segs)
  then have "split_on CHR ''.'' (s @ dotted segs) = s # segs" by simp
  with Cons.prems show ?case by (simp add: split_on_sep)
qed

lemma dotted_inj:
  assumes "\<forall>s \<in> set xs. CHR ''.'' \<notin> set s" "\<forall>s \<in> set ys. CHR ''.'' \<notin> set s"
  shows "dotted xs = dotted ys \<longleftrightarrow> xs = ys"
proof
  assume eq: "dotted xs = dotted ys"
  have "split_on CHR ''.'' ([] @ dotted xs) = [] # xs"
    using assms(1) by (intro split_on_dotted) simp_all
  moreover have "split_on CHR ''.'' ([] @ dotted ys) = [] # ys"
    using assms(2) by (intro split_on_dotted) simp_all
  ultimately show "xs = ys" using eq by simp
qed simp

lemma js_trim_id: "s \<noteq> [] \<Longrightarrow> \<not> js_is_ws (hd s) \<Longrightarrow> \<not> js_is_ws (last s) \<Longrightarrow> js_trim s = s"
  by (simp add: js_trim_def dropWhile_hd_not rev_dropWhile_rev_id)

lemma dotted_append [simp]: "dotted (xs @ ys) = dotted xs @ dotted ys"
  by (simp add: dotted_def)

lemma parse_digits_show_nat:
  "parse_radix (show_nat n) = (10, show_nat n) \<and> takeWhile (radix_digit 10) (show_nat n) = show_nat n"
proof -
  obtain c r where cr: "show_nat n = c # r"
    by (cases "show_nat n") auto
  have notx: "take 2 (show_nat n) \<noteq> ''0x'' \<and> take 2 (show_nat n) \<noteq> ''0X''"
  proof (cases r)
    case Nil
    with cr show ?thesis by simp
  next
    case (Cons c' r')
    then have "c' \<in> set (show_nat n)" using cr by simp
    then obtain d' where "d' < 10" "c' = digit_char d'" using show_nat_digits by blast
    with cr Cons show ?thesis by (simp add: digit_char_props)
  qed
  moreover have "takeWhile (radix_digit 10) (show_nat n) = show_nat n"
    using show_nat_all_digit by (simp add: takeWhile_eq_all_conv radix_digit_def list_all_iff)
  ultimately show ?thesis by (simp add: parse_radix_def)
qed

subsection \<open>Properties of the string built-ins\<close>

text \<open>\<open>parseInt\<close> reads back what \<open>String\<close> prints for every integral
  number, negative ones included: the index segments that \<open>buildNode\<close> writes are read
  back by the search's \<open>parseInt\<close> branch as the same index.\<close>

lemma parse_int_show_int: "parse_int (show_int i) = Some i"
proof (cases "i < 0")
  case True
  let ?ds = "show_nat (nat (- i))"
  have d: "dropWhile js_is_ws (show_int i) = CHR ''-'' # ?ds"
    using True by (simp add: show_int_def js_is_ws_def)
  have s: "parse_sign (CHR ''-'' # ?ds) = (-1, ?ds)"
    by (simp add: parse_sign_def)
  have r: "parse_radix ?ds = (10, ?ds)" and t: "takeWhile (radix_digit 10) ?ds = ?ds"
    using parse_digits_show_nat by blast+
  show ?thesis
    unfolding parse_int_def d s Let_def prod.case r t using True by simp
next
  case False
  then show ?thesis by (simp add: show_int_def)
qed

end
