(* ===== verification/Json.thy ===== *)
theory Json
  imports JsString
begin

text \<open>
  The parsed JSON value, as \<open>JSON.parse\<close> hands it to \<open>src/src/App.js\<close> and
  \<open>src/src/components/JsonTree.js\<close>, and the JavaScript semantics of the operations the
  code applies to it: truthiness (\<open>!data\<close>, \<open>current &&\<close>), \<open>Object.entries\<close> and
  \<open>Object.keys\<close> with the ordinary own-key order, \<open>hasOwnProperty\<close> and property
  reads \<open>current[key]\<close>, \<open>current[parseInt(key)]\<close>. An object keeps its members in
  creation order; JavaScript then lists array-index keys first. The type invariant
  \<open>json_wf\<close> (no key twice in one object) is what \<open>JSON.parse\<close> guarantees: of a
  repeated key in the text it keeps the last value. The datatype itself admits repeated
  keys, on which \<open>get_prop\<close> (by \<open>map_of\<close>) would read the first; every property
  that reads members assumes \<open>json_wf\<close>.
\<close>

datatype json =
    JNull
  | JBool bool
  | JNum int  \<comment> \<open>integral numbers only\<close>
  | JStr js_string
  | JArr "json list"
  | JObj "(js_string \<times> json) list"

subsection \<open>Truthiness\<close>

fun js_truthy :: "json \<Rightarrow> bool" where
  "js_truthy JNull = False"
| "js_truthy (JBool b) = b"
| "js_truthy (JNum n) = (n \<noteq> 0)"
| "js_truthy (JStr s) = (s \<noteq> [])"
| "js_truthy (JArr _) = True"
| "js_truthy (JObj _) = True"

subsection \<open>Object.entries and Object.keys\<close>

text \<open>OrdinaryOwnPropertyKeys: the array-index keys in ascending numeric order, then the
  other string keys in creation order. \<open>sort_key\<close> is stable, and array-index keys
  of one object are distinct numerals.\<close>

definition js_entries :: "(js_string \<times> json) list \<Rightarrow> (js_string \<times> json) list" where
  "js_entries kvs =
     sort_key (\<lambda>kv. digits_val (fst kv)) (filter (\<lambda>kv. is_array_index (fst kv)) kvs)
     @ filter (\<lambda>kv. \<not> is_array_index (fst kv)) kvs"

definition js_keys :: "(js_string \<times> json) list \<Rightarrow> js_string list" where
  "js_keys kvs = map fst (js_entries kvs)"

subsection \<open>Own properties and property reads\<close>

text \<open>\<open>Object.prototype.hasOwnProperty.call(current, key)\<close> on a value: the members of
  an object; the in-range indices and \<open>length\<close> of an array or of a string (a string
  is boxed to a String object); nothing on numbers and booleans.\<close>

fun has_own :: "json \<Rightarrow> js_string \<Rightarrow> bool" where
  "has_own (JObj kvs) k = (k \<in> set (map fst kvs))"
| "has_own (JArr xs) k = (k = ''length'' \<or> (is_array_index k \<and> digits_val k < length xs))"
| "has_own (JStr s) k = (k = ''length'' \<or> (is_array_index k \<and> digits_val k < length s))"
| "has_own _ k = False"

text \<open>\<open>current[key]\<close> for an own property (\<open>None\<close>, JavaScript's \<open>undefined\<close>,
  where the key is not one).\<close>

fun get_prop :: "json \<Rightarrow> js_string \<Rightarrow> json option" where
  "get_prop (JObj kvs) k = map_of kvs k"
| "get_prop (JArr xs) k =
     (if k = ''length'' then Some (JNum (int (length xs)))
      else if is_array_index k \<and> digits_val k < length xs then Some (xs ! digits_val k) else None)"
| "get_prop (JStr s) k =
     (if k = ''length'' then Some (JNum (int (length s)))
      else if is_array_index k \<and> digits_val k < length s then Some (JStr [s ! digits_val k]) else None)"
| "get_prop _ k = None"

text \<open>\<open>current[i]\<close> on an array with a number \<open>i\<close>: the element when \<open>i\<close> is in
  range, \<open>undefined\<close> otherwise (no bounds check raises).\<close>

definition index_get :: "json list \<Rightarrow> int \<Rightarrow> json option" where
  "index_get xs i = (if 0 \<le> i \<and> i < int (length xs) then Some (xs ! nat i) else None)"

subsection \<open>The type invariant\<close>

fun json_wf :: "json \<Rightarrow> bool" where
  "json_wf (JArr xs) = list_all json_wf xs"
| "json_wf (JObj kvs) = (distinct (map fst kvs) \<and> list_all json_wf (map snd kvs))"
| "json_wf _ = True"

subsection \<open>Replaying a path\<close>

text \<open>Standard key/index lookup of a list of path segments, the reading of a path that
  the spec's invariant on tree nodes refers to.\<close>

fun json_at :: "json \<Rightarrow> js_string list \<Rightarrow> json option" where
  "json_at v [] = Some v"
| "json_at (JObj kvs) (k # ks) = (case map_of kvs k of Some v \<Rightarrow> json_at v ks | None \<Rightarrow> None)"
| "json_at (JArr xs) (k # ks) =
     (if is_index_numeral k \<and> digits_val k < length xs then json_at (xs ! digits_val k) ks else None)"
| "json_at _ (k # ks) = None"

subsection \<open>Counting primitive values\<close>

fun prim_count :: "json \<Rightarrow> nat" where
  "prim_count (JArr xs) = sum_list (map prim_count xs)"
| "prim_count (JObj kvs) = sum_list (map prim_count (map snd kvs))"
| "prim_count _ = 1"

declare js_entries_def [js_eval] js_keys_def [js_eval] index_get_def [js_eval]

subsection \<open>Lemmas\<close>

lemma size_JObj_member: "(k, v) \<in> set kvs \<Longrightarrow> size v < size (JObj kvs)"
  by (auto intro!: le_imp_less_Suc size_list_estimation' [where x = "(k, v)"])

lemma size_JArr_member: "v \<in> set xs \<Longrightarrow> size v < size (JArr xs)"
  by (auto intro!: le_imp_less_Suc size_list_estimation')

lemma set_js_entries [simp]: "set (js_entries kvs) = set kvs"
  by (auto simp: js_entries_def)

lemma mset_js_entries: "mset (js_entries kvs) = mset kvs"
  by (simp add: js_entries_def mset_filter)

lemma length_js_entries [simp]: "length (js_entries kvs) = length kvs"
  using mset_js_entries by (metis size_mset)

lemma distinct_js_keys: "distinct (map fst kvs) \<Longrightarrow> distinct (js_keys kvs)"
proof -
  have "mset (js_keys kvs) = mset (map fst kvs)"
    unfolding js_keys_def mset_map mset_js_entries ..
  then show "distinct (map fst kvs) \<Longrightarrow> distinct (js_keys kvs)"
    using mset_eq_imp_distinct_iff by blast
qed

lemma js_entries_no_index:
  "\<forall>k \<in> set (map fst kvs). \<not> is_array_index k \<Longrightarrow> js_entries kvs = kvs"
  by (simp add: js_entries_def)

lemma json_wf_member:
  "json_wf (JObj kvs) \<Longrightarrow> (k, v) \<in> set kvs \<Longrightarrow> json_wf v \<and> map_of kvs k = Some v"
  by (auto simp: list_all_iff)

lemma js_entries_single [simp]: "js_entries [kv] = [kv]"
  by (simp add: js_entries_def)

lemma length_js_keys [simp]: "length (js_keys kvs) = length kvs"
  by (simp add: js_keys_def)

lemma js_keys_single_iff: "js_keys kvs = [k] \<longleftrightarrow> (\<exists>x. kvs = [(k, x)])"
proof
  assume h: "js_keys kvs = [k]"
  then have "length kvs = 1" using length_js_keys [of kvs] by simp
  then obtain k' x where kvs: "kvs = [(k', x)]"
    by (auto simp: length_Suc_conv)
  with h show "\<exists>x. kvs = [(k, x)]" by (simp add: js_keys_def)
qed (auto simp: js_keys_def)


subsection \<open>Properties of the own-key order\<close>

text \<open>\<open>Object.keys\<close> and \<open>Object.entries\<close> do not list members in insertion
  order, as the spec says they do: keys that are array indices come first, in ascending
  numeric order; only the other keys keep their insertion order. So \<open>{"b": 0, "1": 0}\<close>
  is drawn with the child \<open>1\<close> before \<open>b\<close>.\<close>

lemma js_keys_order:
  "js_keys [(''b'', x), (''1'', y)] = [''1'', ''b'']
   \<and> sorted (map digits_val (filter is_array_index (js_keys kvs)))
   \<and> filter (\<lambda>k. \<not> is_array_index k) (js_keys kvs) = filter (\<lambda>k. \<not> is_array_index k) (map fst kvs)"
proof (intro conjI)
  show "js_keys [(''b'', x), (''1'', y)] = [''1'', ''b'']"
    by (simp add: js_keys_def js_entries_def is_array_index_def is_index_numeral_def is_digit_def
        radix_val_def show_nat.simps digit_char_def digit_value_def)
  let ?f = "\<lambda>kv. digits_val (fst kv)" and ?P = "\<lambda>kv. is_array_index (fst kv)"
  have idx: "filter is_array_index (js_keys kvs) = map fst (sort_key ?f (filter ?P kvs))"
    by (simp add: js_keys_def js_entries_def filter_map comp_def filter_sort [symmetric])
  then show "sorted (map digits_val (filter is_array_index (js_keys kvs)))"
    by (simp add: comp_def)
  show "filter (\<lambda>k. \<not> is_array_index k) (js_keys kvs) = filter (\<lambda>k. \<not> is_array_index k) (map fst kvs)"
    by (simp add: js_keys_def js_entries_def filter_map comp_def filter_sort [symmetric])
qed

end
