(* ===== verification/JsRegex.thy ===== *)
theory JsRegex
  imports JsString
begin

text \<open>
  \<open>String.prototype.replace\<close> with a regular-expression literal, from the ECMAScript
  specification (\<open>RegExp.prototype[@@replace]\<close>, \<open>RegExpBuiltinExec\<close> and the
  backtracking semantics of patterns), for the subset of patterns the code writes: an
  optional \<open>^\<close> assertion, then a sequence of literal characters, each possibly
  quantified by \<open>?\<close> or the greedy \<open>*\<close>, and the \<open>g\<close> flag. The three literals of
  the code are \<open>/^\$?\.*\.?/\<close> (\<open>src/src/App.js\<close>, line 33), \<open>/\.\./g\<close> (line 34) and
  \<open>/"/g\<close> (\<open>src/src/components/JsonTree.js\<close>, line 8). The replacement strings of
  the code (\<open>"$."\<close>, \<open>"."\<close>, \<open>""\<close>) hold no \<open>$\<close>-pattern of \<open>GetSubstitution\<close>
  (\<open>$$\<close>, \<open>$&\<close>, \<open>$`\<close>, \<open>$'\<close>, \<open>$n\<close>, \<open>$<\<close>), so they are inserted as they are.
  The specialised definitions \<open>strip_quotes\<close>, \<open>strip_root_prefix\<close> and
  \<open>collapse_dots\<close> are proved equal to this reference semantics.
\<close>

subsection \<open>Patterns\<close>

datatype rx_term =
    RxChar char   \<comment> \<open>a literal character (\<open>\.\<close>, \<open>"\<close>)\<close>
  | RxOpt char    \<comment> \<open>\<open>c?\<close>: greedy, tries one \<open>c\<close> before none\<close>
  | RxStar char   \<comment> \<open>\<open>c*\<close>: greedy, tries one more \<open>c\<close> before stopping\<close>

record js_regex =
  rx_anchored :: bool        \<comment> \<open>the pattern starts with \<open>^\<close> (no \<open>m\<close> flag)\<close>
  rx_terms :: "rx_term list"
  rx_global :: bool          \<comment> \<open>the \<open>g\<close> flag\<close>

subsection \<open>Backtracking matcher\<close>

text \<open>The continuations of a match attempt in the order the backtracking semantics
  tries them: each element is the input left after one way of matching the terms. A
  match of the whole pattern is the first of them, since the continuation after the last
  term always succeeds. A quantified character consumes a character on every iteration,
  so the empty-iteration check of \<open>RepeatMatcher\<close> never applies.\<close>

fun rx_match :: "rx_term list \<Rightarrow> js_string \<Rightarrow> js_string list" where
  "rx_match [] s = [s]"
| "rx_match (RxChar c # ts) s =
     (case s of x # r \<Rightarrow> if x = c then rx_match ts r else [] | [] \<Rightarrow> [])"
| "rx_match (RxOpt c # ts) s =
     (case s of x # r \<Rightarrow> (if x = c then rx_match ts r else []) @ rx_match ts s
              | [] \<Rightarrow> rx_match ts s)"
| "rx_match (RxStar c # ts) s =
     (case s of x # r \<Rightarrow> (if x = c then rx_match (RxStar c # ts) r else []) @ rx_match ts s
              | [] \<Rightarrow> rx_match ts s)"

text \<open>The length of the match starting at index \<open>i\<close>, if the pattern matches there.\<close>

definition match_at :: "rx_term list \<Rightarrow> js_string \<Rightarrow> nat \<Rightarrow> nat option" where
  "match_at ts s i =
     (case rx_match ts (drop i s) of [] \<Rightarrow> None | r # _ \<Rightarrow> Some (length (drop i s) - length r))"

text \<open>\<open>RegExpBuiltinExec\<close> from \<open>lastIndex = i\<close>: a failed attempt advances by one
  index until past the end of the string; \<open>^\<close> fails at every index but 0. The result
  is the match index and the match length.\<close>

function find_match :: "js_regex \<Rightarrow> js_string \<Rightarrow> nat \<Rightarrow> (nat \<times> nat) option" where
  "find_match rx s i =
     (if length s < i then None
      else case (if rx_anchored rx \<and> 0 < i then None else match_at (rx_terms rx) s i) of
             Some l \<Rightarrow> Some (i, l)
           | None \<Rightarrow> find_match rx s (Suc i))"
  by pat_completeness auto
termination
  by (relation "measure (\<lambda>(rx, s, i). Suc (length s) - i)") auto

text \<open>The matches a global replacement collects: after a match, \<open>lastIndex\<close> is its
  end, advanced by one more index when the match is empty.\<close>

function all_matches :: "js_regex \<Rightarrow> js_string \<Rightarrow> nat \<Rightarrow> (nat \<times> nat) list" where
  "all_matches rx s i =
     (case find_match rx s i of
        None \<Rightarrow> []
      | Some (p, l) \<Rightarrow> (p, l) # all_matches rx s (if l = 0 then Suc p else p + l))"
  by pat_completeness auto
termination
proof (relation "measure (\<lambda>(rx, s, i). Suc (length s) - i)")
  show "wf (measure (\<lambda>(rx, s, i). Suc (length s) - i))" by simp
next
  fix rx s i x p l
  assume found: "find_match rx s i = Some x" "(p, l) = x"
  have "find_match rx s i = Some (p, l) \<Longrightarrow> i \<le> p \<and> p + l \<le> length s"
  proof (induction rx s i rule: find_match.induct)
    case (1 rx s i)
    show ?case
    proof (cases "length s < i")
      case False
      show ?thesis
      proof (cases "(if rx_anchored rx \<and> 0 < i then None else match_at (rx_terms rx) s i)")
        case None
        with False "1.prems" have "find_match rx s (Suc i) = Some (p, l)"
          by (simp add: find_match.simps [of rx s i])
        with "1.IH" False None show ?thesis by fastforce
      next
        case (Some l')
        with False "1.prems" have "p = i" "l = l'"
          by (simp_all add: find_match.simps [of rx s i])
        with Some False show ?thesis
          by (auto simp: match_at_def split: if_splits list.splits)
      qed
    qed (use "1.prems" in \<open>simp add: find_match.simps [of rx s i]\<close>)
  qed
  with found show "((rx, s, if l = 0 then Suc p else p + l), rx, s, i)
      \<in> measure (\<lambda>(rx, s, i). Suc (length s) - i)"
    by auto
qed

text \<open>Building the result: the text between matches is copied and each match is
  replaced by the replacement string.\<close>

fun splice :: "js_string \<Rightarrow> js_string \<Rightarrow> (nat \<times> nat) list \<Rightarrow> nat \<Rightarrow> js_string" where
  "splice s rep [] nsp = drop nsp s"
| "splice s rep ((p, l) # ms) nsp = take (p - nsp) (drop nsp s) @ rep @ splice s rep ms (p + l)"

definition js_replace :: "js_regex \<Rightarrow> js_string \<Rightarrow> js_string \<Rightarrow> js_string" where
  "js_replace rx rep s =
     splice s rep
       (if rx_global rx then all_matches rx s 0
        else case find_match rx s 0 of None \<Rightarrow> [] | Some m \<Rightarrow> [m]) 0"

subsection \<open>The regular-expression literals of the code\<close>

definition root_prefix_regex :: js_regex where
  "root_prefix_regex =
     \<lparr>rx_anchored = True, rx_terms = [RxOpt CHR ''$'', RxStar CHR ''.'', RxOpt CHR ''.''],
      rx_global = False\<rparr>"

definition double_dot_regex :: js_regex where
  "double_dot_regex = \<lparr>rx_anchored = False, rx_terms = [RxChar CHR ''.'', RxChar CHR ''.''],
      rx_global = True\<rparr>"

definition quote_regex :: js_regex where
  "quote_regex = \<lparr>rx_anchored = False, rx_terms = [RxChar CHR 0x22], rx_global = True\<rparr>"

declare find_match.simps [simp del] all_matches.simps [simp del]
declare match_at_def [js_eval] js_replace_def [js_eval] root_prefix_regex_def [js_eval]
  double_dot_regex_def [js_eval] quote_regex_def [js_eval]

subsection \<open>Lemmas on the search loop\<close>

lemma find_match_bounds:
  "find_match rx s i = Some (p, l) \<Longrightarrow> i \<le> p \<and> p + l \<le> length s"
proof (induction rx s i rule: find_match.induct)
  case (1 rx s i)
  show ?case
  proof (cases "length s < i")
    case False
    show ?thesis
    proof (cases "(if rx_anchored rx \<and> 0 < i then None else match_at (rx_terms rx) s i)")
      case None
      with False "1.prems" have "find_match rx s (Suc i) = Some (p, l)"
        by (simp add: find_match.simps [of rx s i])
      with "1.IH" False None show ?thesis by fastforce
    next
      case (Some l')
      with False "1.prems" have "p = i" "l = l'"
        by (simp_all add: find_match.simps [of rx s i])
      with Some False show ?thesis
        by (auto simp: match_at_def split: if_splits list.splits)
    qed
  qed (use "1.prems" in \<open>simp add: find_match.simps [of rx s i]\<close>)
qed

lemma find_match_skip:
  "\<not> rx_anchored rx \<Longrightarrow> i \<le> length s \<Longrightarrow> match_at (rx_terms rx) s i = None \<Longrightarrow>
   find_match rx s i = find_match rx s (Suc i)"
  by (simp add: find_match.simps [of rx s i])

lemma find_match_here:
  "\<not> rx_anchored rx \<or> i = 0 \<Longrightarrow> i \<le> length s \<Longrightarrow> match_at (rx_terms rx) s i = Some l \<Longrightarrow>
   find_match rx s i = Some (i, l)"
  by (subst find_match.simps) auto

lemma find_match_past_end: "length s < i \<Longrightarrow> find_match rx s i = None"
  by (simp add: find_match.simps [of rx s i])

lemma all_matches_ge: "(p, l) \<in> set (all_matches rx s i) \<Longrightarrow> i \<le> p"
proof (induction rx s i rule: all_matches.induct)
  case (1 rx s i)
  show ?case
  proof (cases "find_match rx s i")
    case None
    with "1.prems" show ?thesis by (simp add: all_matches.simps [of rx s i])
  next
    case (Some m)
    obtain p' l' where m: "m = (p', l')" by (cases m)
    with Some have le: "i \<le> p'" using find_match_bounds by blast
    let ?j = "if l' = 0 then Suc p' else p' + l'"
    from "1.prems" Some m have "(p, l) = (p', l') \<or> (p, l) \<in> set (all_matches rx s ?j)"
      by (simp add: all_matches.simps [of rx s i])
    then show ?thesis
    proof
      assume "(p, l) \<in> set (all_matches rx s ?j)"
      with "1.IH" [OF Some m [symmetric]] have "?j \<le> p" by blast
      with le show ?thesis by (simp split: if_splits)
    qed (use le in simp)
  qed
qed

lemma splice_skip:
  assumes "i < length s" "\<forall>m \<in> set (take 1 ms). Suc i \<le> fst m"
  shows "splice s rep ms i = s ! i # splice s rep ms (Suc i)"
proof (cases ms)
  case Nil
  with assms(1) show ?thesis by (simp add: Cons_nth_drop_Suc)
next
  case (Cons m ms')
  obtain p l where m: "m = (p, l)" by (cases m)
  have drop: "drop i s = s ! i # drop (Suc i) s"
    using assms(1) by (simp add: Cons_nth_drop_Suc)
  from assms Cons m have "p - i = Suc (p - Suc i)" by simp
  with Cons m show ?thesis by (simp add: drop)
qed

text \<open>One step of a global replacement with a pattern without \<open>^\<close>: where the
  pattern does not match, the character is copied; where it matches a non-empty text,
  the replacement is written and the scan resumes after the match.\<close>

lemma replace_step_copy:
  assumes "\<not> rx_anchored rx" "i < length s" "match_at (rx_terms rx) s i = None"
  shows "splice s rep (all_matches rx s i) i = s ! i # splice s rep (all_matches rx s (Suc i)) (Suc i)"
proof -
  have eq: "all_matches rx s i = all_matches rx s (Suc i)"
    using find_match_skip [OF assms(1) _ assms(3)] assms(2)
    by (simp add: all_matches.simps [of rx s i] all_matches.simps [of rx s "Suc i"])
  have "\<forall>m \<in> set (take 1 (all_matches rx s (Suc i))). Suc i \<le> fst m"
    using all_matches_ge [of _ _ rx s "Suc i"] by (auto dest: in_set_takeD)
  then show ?thesis unfolding eq by (rule splice_skip [OF assms(2)])
qed

lemma replace_step_match:
  assumes "\<not> rx_anchored rx" "i \<le> length s" "match_at (rx_terms rx) s i = Some l" "0 < l"
  shows "splice s rep (all_matches rx s i) i = rep @ splice s rep (all_matches rx s (i + l)) (i + l)"
  using find_match_here [of rx i s l] assms
  by (simp add: all_matches.simps [of rx s i])

lemma replace_step_end:
  assumes "\<not> rx_anchored rx" "length s \<le> i" "match_at (rx_terms rx) s i = None"
  shows "splice s rep (all_matches rx s i) i = []"
proof -
  have "find_match rx s i = None"
  proof (cases "i = length s")
    case True
    then show ?thesis
      using find_match_skip [OF assms(1) _ assms(3)] find_match_past_end [of s "Suc i" rx]
      by simp
  qed (use assms(2) find_match_past_end in auto)
  with assms(2) show ?thesis by (simp add: all_matches.simps [of rx s i])
qed

subsection \<open>The number of matches\<close>

text \<open>The loop of a global replacement ends: it collects at most one match per
  index of the string and one at its end, because every match moves \<open>lastIndex\<close>
  forward, by the match length or, for an empty match, by one.\<close>

lemma all_matches_count: "length (all_matches rx s i) \<le> Suc (length s) - i"
proof (induction rx s i rule: all_matches.induct)
  case (1 rx s i)
  show ?case
  proof (cases "find_match rx s i")
    case None
    then show ?thesis by (simp add: all_matches.simps [of rx s i])
  next
    case (Some m)
    obtain p l where m: "m = (p, l)" by (cases m)
    with Some have b: "i \<le> p \<and> p + l \<le> length s" using find_match_bounds by blast
    let ?j = "if l = 0 then Suc p else p + l"
    have "length (all_matches rx s i) = Suc (length (all_matches rx s ?j))"
      using Some m by (simp add: all_matches.simps [of rx s i])
    also have "\<dots> \<le> Suc (Suc (length s) - ?j)"
      using "1.IH" [OF Some m [symmetric]] by simp
    also have "\<dots> \<le> Suc (length s) - i"
      using b by auto
    finally show ?thesis .
  qed
qed

subsection \<open>The quote replacement\<close>

text \<open>C24. \<open>value.replace(/"/g, "")\<close>, run by the reference semantics of global
  replacement, is the filter \<open>strip_quotes\<close> that models it: every double quote is
  removed and the other characters are kept in order.\<close>

theorem strip_quotes_replace: "js_replace quote_regex [] s = strip_quotes s"
proof -
  have "drop i s = t \<Longrightarrow> splice s [] (all_matches quote_regex s i) i = strip_quotes t" for i t
  proof (induction t arbitrary: i)
    case Nil
    then have "length s \<le> i" "match_at (rx_terms quote_regex) s i = None"
      by (simp_all add: quote_regex_def match_at_def)
    then show ?case
      using replace_step_end [of quote_regex s i "[]"] by (simp add: quote_regex_def strip_quotes_def)
  next
    case (Cons x r)
    from drop_eq_Cons_nth [OF Cons.prems]
    have i: "i < length s" "s ! i = x" "drop (Suc i) s = r" by simp_all
    show ?case
    proof (cases "x = CHR 0x22")
      case True
      with Cons.prems have "match_at (rx_terms quote_regex) s i = Some 1"
        by (simp add: quote_regex_def match_at_def)
      with i True Cons.IH [of "Suc i"] show ?thesis
        using replace_step_match [of quote_regex i s 1 "[]"]
        by (simp add: quote_regex_def strip_quotes_def)
    next
      case False
      with Cons.prems have "match_at (rx_terms quote_regex) s i = None"
        by (simp add: quote_regex_def match_at_def)
      with i False Cons.IH [of "Suc i"] show ?thesis
        using replace_step_copy [of quote_regex i s "[]"]
        by (simp add: quote_regex_def strip_quotes_def)
    qed
  qed
  then show ?thesis by (simp add: js_replace_def quote_regex_def)
qed

end
