(* ===== verification/PathResolver.thy ===== *)
theory PathResolver
  imports Json JsRegex
begin

text \<open>
  The path search of \<open>handleSearch\<close> in \<open>src/src/App.js\<close> (lines 26--54): the two
  guards (an empty query or a falsy document clear the highlight), the normalisation of
  the query by two regular-expression replacements, the split into segments, and the
  loop that walks the document with \<open>hasOwnProperty\<close> and, on arrays, \<open>parseInt\<close>,
  accumulating \<open>validPath\<close>. The loop is structural recursion on the segment list; a
  failed step is the \<open>alert\<close> branch, \<open>None\<close>. The state update that follows is in
  the App theory.
\<close>

subsection \<open>Normalisation of the query\<close>

text \<open>\<open>.replace(/^\$?\.*\.?/, "$.")\<close>: the pattern always matches at the start; it
  takes an optional \<open>$\<close> and then every leading dot (the greedy \<open>\.*\<close> leaves
  nothing for \<open>\.?\<close>), and the match is replaced by \<open>$.\<close>.\<close>

definition strip_root_prefix :: "js_string \<Rightarrow> js_string" where
  "strip_root_prefix s =
     ''$.'' @ dropWhile (\<lambda>c. c = CHR ''.'') (case s of c # r \<Rightarrow> if c = CHR ''$'' then r else s | [] \<Rightarrow> [])"

text \<open>\<open>.replace(/\.\./g, ".")\<close>: matches are found left to right without overlap, so a
  run of three dots becomes two.\<close>

fun collapse_dots :: "js_string \<Rightarrow> js_string" where
  "collapse_dots (a # b # r) =
     (if a = CHR ''.'' \<and> b = CHR ''.'' then CHR ''.'' # collapse_dots r else a # collapse_dots (b # r))"
| "collapse_dots r = r"

definition clean_path :: "js_string \<Rightarrow> js_string" where
  "clean_path q = collapse_dots (strip_root_prefix (js_trim q))"

text \<open>\<open>cleanedPath.split(".").slice(1)\<close>.\<close>

definition path_parts :: "js_string \<Rightarrow> js_string list" where
  "path_parts q = drop 1 (split_on CHR ''.'' (clean_path q))"

subsection \<open>The walk\<close>

text \<open>One iteration per segment: \<open>current\<close> (\<open>None\<close> is \<open>undefined\<close>) and
  \<open>validPath\<close>. First branch: \<open>current\<close> is truthy and has the segment as own
  property. Second branch: \<open>current\<close> is an array and \<open>parseInt(key)\<close> is a number;
  the element is read with that number, with no bounds check. Otherwise the alert.\<close>

fun search_walk ::
  "json option \<Rightarrow> js_string list \<Rightarrow> canonical_path \<Rightarrow> (json option \<times> canonical_path) option"
where
  "search_walk cur [] vp = Some (cur, vp)"
| "search_walk cur (k # ks) vp =
     (case cur of
        None \<Rightarrow> None
      | Some c \<Rightarrow>
          if js_truthy c \<and> has_own c k then search_walk (get_prop c k) ks (vp @ ''.'' @ k)
          else (case c of
                  JArr xs \<Rightarrow>
                    (case parse_int k of
                       Some i \<Rightarrow> search_walk (index_get xs i) ks (vp @ ''.'' @ k)
                     | None \<Rightarrow> None)
                | _ \<Rightarrow> None))"

subsection \<open>The outcome of a search\<close>

datatype search_outcome =
    ClearHighlight              \<comment> \<open>\<open>setHighlightPath(null)\<close>, no message\<close>
  | PathNotFound                \<comment> \<open>\<open>alert(...)\<close>, highlight untouched\<close>
  | HighlightAt canonical_path  \<comment> \<open>\<open>setHighlightPath(validPath)\<close>\<close>

definition search_outcome :: "json \<Rightarrow> js_string \<Rightarrow> search_outcome" where
  "search_outcome data q =
     (if js_trim q = [] then ClearHighlight
      else if \<not> js_truthy data then ClearHighlight
      else case search_walk (Some data) (path_parts q) ''$'' of
             None \<Rightarrow> PathNotFound
           | Some (_, vp) \<Rightarrow> HighlightAt vp)"

subsection \<open>Keys a dot-path can name\<close>

text \<open>A key that survives the normalisation unchanged when it is a segment of a query:
  non-empty (an empty segment is read as part of a run of dots), without a dot (the
  separator), and not ending in whitespace (\<open>trim\<close> would cut it from the last
  segment).\<close>

definition simple_key :: "js_string \<Rightarrow> bool" where
  "simple_key k \<longleftrightarrow> k \<noteq> [] \<and> CHR ''.'' \<notin> set k \<and> \<not> js_is_ws (last k)"

fun json_keys_simple :: "json \<Rightarrow> bool" where
  "json_keys_simple (JArr xs) = list_all json_keys_simple xs"
| "json_keys_simple (JObj kvs) =
     (list_all simple_key (map fst kvs) \<and> list_all json_keys_simple (map snd kvs))"
| "json_keys_simple _ = True"

declare simple_key_def [js_eval] strip_root_prefix_def [js_eval] clean_path_def [js_eval] path_parts_def [js_eval]
  search_outcome_def [js_eval]


subsection \<open>Lemmas\<close>

lemma search_walk_append:
  "search_walk cur (ks1 @ ks2) vp =
     (case search_walk cur ks1 vp of None \<Rightarrow> None | Some (c, vp') \<Rightarrow> search_walk c ks2 vp')"
proof (induction cur ks1 vp rule: search_walk.induct)
  case (2 cur k ks vp)
  then show ?case by (simp split: option.split json.split)
qed simp

lemma search_walk_path:
  "search_walk cur ks vp = Some (c, vp') \<Longrightarrow> vp' = vp @ dotted ks"
proof (induction cur ks vp rule: search_walk.induct)
  case (2 cur k ks vp)
  then show ?case by (simp split: option.splits if_splits json.splits)
qed simp


lemma split_on_ne [simp]: "split_on c s \<noteq> []"
  by (induction s) (auto simp: Let_def)

lemma split_on_join: "hd (split_on c s) @ concat (map (\<lambda>w. c # w) (tl (split_on c s))) = s"
proof (induction s)
  case (Cons x s)
  obtain w ws where ws: "split_on c s = w # ws"
    using split_on_ne [of c s] by (cases "split_on c s") auto
  with Cons.IH show ?case by (simp add: Let_def)
qed simp

lemma collapse_dots_non_dot: "a \<noteq> CHR ''.'' \<Longrightarrow> collapse_dots (a # r) = a # collapse_dots r"
  by (cases r) auto

lemma collapse_dots_after_dots:
  "collapse_dots (CHR ''.'' # dropWhile (\<lambda>c. c = CHR ''.'') x)
     = CHR ''.'' # collapse_dots (dropWhile (\<lambda>c. c = CHR ''.'') x)"
proof (cases "dropWhile (\<lambda>c. c = CHR ''.'') x")
  case Nil
  show ?thesis unfolding Nil by simp
next
  case (Cons a r)
  then have "a \<noteq> CHR ''.''"
    using hd_dropWhile [of "\<lambda>c. c = CHR ''.''" x] by simp
  with Cons show ?thesis by (simp add: collapse_dots_non_dot)
qed

lemma clean_path_shape: "\<exists>r. clean_path q = ''$.'' @ r"
  by (simp add: clean_path_def strip_root_prefix_def collapse_dots_after_dots)

lemma clean_path_parts: "''$'' @ dotted (path_parts q) = clean_path q"
proof -
  obtain r where r: "clean_path q = ''$.'' @ r" using clean_path_shape by blast
  have split: "split_on CHR ''.'' (clean_path q) = ''$'' # split_on CHR ''.'' r"
    by (simp add: r Let_def)
  have "hd (split_on CHR ''.'' r) @ dotted (tl (split_on CHR ''.'' r)) = r"
    using split_on_join [of "CHR ''.''" r] by (simp add: dotted_def)
  then have "dotted (split_on CHR ''.'' r) = CHR ''.'' # r"
    using split_on_ne [of "CHR ''.''" r] by (cases "split_on CHR ''.'' r") auto
  with split r show ?thesis by (simp add: path_parts_def)
qed


lemma index_numeral_not_length: "is_index_numeral k \<Longrightarrow> k \<noteq> ''length''"
  by (auto simp: is_index_numeral_def is_digit_def)

lemma search_walk_json_at:
  "json_at v segs = Some v' \<Longrightarrow> search_walk (Some v) segs vp = Some (Some v', vp @ dotted segs)"
proof (induction v segs arbitrary: vp rule: json_at.induct)
  case (2 kvs k ks)
  then obtain x where x: "map_of kvs k = Some x" and at: "json_at x ks = Some v'"
    by (auto split: option.splits)
  then have "k \<in> set (map fst kvs)"
    using map_of_SomeD [OF x] by force
  with x at "2.IH" [OF x] show ?case by simp
next
  case (3 xs k ks)
  then have idx: "is_index_numeral k" "digits_val k < length xs"
    and at: "json_at (xs ! digits_val k) ks = Some v'"
    by (auto split: if_splits)
  then have walk: "search_walk (Some (xs ! digits_val k)) ks (vp @ ''.'' @ k)
      = Some (Some v', vp @ dotted (k # ks))"
    using "3.IH" by simp
  show ?case
  proof (cases "is_array_index k")
    case True
    with idx walk index_numeral_not_length [OF idx(1)] show ?thesis by simp
  next
    case False
    from idx(1) have "k = show_nat (digits_val k)" by (simp add: is_index_numeral_def)
    then have "parse_int k = Some (int (digits_val k))" by (metis parse_int_show_nat)
    with False idx walk index_numeral_not_length [OF idx(1)] show ?thesis
      by (simp add: index_get_def)
  qed
qed simp_all


lemma collapse_dots_append_free:
  "CHR ''.'' \<notin> set s \<Longrightarrow> collapse_dots (s @ t) = s @ collapse_dots t"
  by (induction s) (auto simp: collapse_dots_non_dot)

lemma collapse_dots_dotted:
  "\<forall>s \<in> set segs. simple_key s \<Longrightarrow> collapse_dots (dotted segs) = dotted segs"
proof (induction segs)
  case (Cons s segs)
  then obtain a s' where s: "s = a # s'" "a \<noteq> CHR ''.''" "CHR ''.'' \<notin> set s'"
    by (cases s) (auto simp: simple_key_def)
  have "collapse_dots ((a # s') @ dotted segs) = (a # s') @ collapse_dots (dotted segs)"
    by (rule collapse_dots_append_free) (use s in simp)
  then have "collapse_dots (a # s' @ dotted segs) = a # s' @ collapse_dots (dotted segs)"
    by simp
  with Cons s show ?case by simp
qed simp

lemma last_dotted: "segs \<noteq> [] \<Longrightarrow> last segs \<noteq> [] \<Longrightarrow> last (dotted segs) = last (last segs)"
  by (induction segs rule: rev_induct) auto

lemma js_trim_dotted:
  assumes "segs \<noteq> []" "\<forall>s \<in> set segs. simple_key s"
  shows "js_trim (''$'' @ dotted segs) = ''$'' @ dotted segs"
proof -
  have ks: "last segs \<in> set segs" using assms(1) by simp
  with assms(2) have "last segs \<noteq> []" "\<not> js_is_ws (last (last segs))"
    by (auto simp: simple_key_def)
  moreover have "dotted segs \<noteq> []" using assms(1) by (cases segs) auto
  ultimately have "\<not> js_is_ws (last (''$'' @ dotted segs))"
    using assms(1) by (simp add: last_dotted)
  then show ?thesis
    by (intro js_trim_id) (simp_all add: js_is_ws_def)
qed

lemma clean_path_dotted:
  assumes "segs \<noteq> []" "\<forall>s \<in> set segs. simple_key s"
  shows "clean_path (''$'' @ dotted segs) = ''$'' @ dotted segs"
proof -
  obtain s rest where segs: "segs = s # rest" using assms(1) by (cases segs) auto
  with assms(2) obtain a s' where s: "s = a # s'" "a \<noteq> CHR ''.''"
    by (cases s) (auto simp: simple_key_def)
  have "strip_root_prefix (''$'' @ dotted segs) = ''$'' @ dotted segs"
    using segs s by (simp add: strip_root_prefix_def)
  moreover have "collapse_dots (''$'' @ dotted segs) = ''$'' @ dotted segs"
    using assms(2) by (simp add: collapse_dots_non_dot collapse_dots_dotted)
  ultimately show ?thesis unfolding clean_path_def js_trim_dotted [OF assms] by simp
qed

lemma path_parts_dotted:
  assumes "segs \<noteq> []" "\<forall>s \<in> set segs. simple_key s"
  shows "path_parts (''$'' @ dotted segs) = segs"
proof -
  have "\<forall>s \<in> set segs. CHR ''.'' \<notin> set s" using assms(2) by (simp add: simple_key_def)
  then have split: "split_on CHR ''.'' (''$'' @ dotted segs) = ''$'' # segs"
    by (intro split_on_dotted) simp_all
  show ?thesis
    unfolding path_parts_def clean_path_dotted [OF assms] split by simp
qed


lemma search_outcome_HighlightAt:
  assumes "search_outcome data q = HighlightAt p"
  obtains c where "search_walk (Some data) (path_parts q) ''$'' = Some (c, p)"
  using assms by (auto simp: search_outcome_def split: if_splits option.splits)

lemma json_at_append:
  "json_at v (xs @ ys) = (case json_at v xs of None \<Rightarrow> None | Some w \<Rightarrow> json_at w ys)"
  by (induction v xs rule: json_at.induct) (auto split: option.split)

lemma json_at_Cons_truthy: "json_at v (k # ks) = Some w \<Longrightarrow> js_truthy v"
  by (cases v) auto

lemma simple_key_show_nat: "simple_key (show_nat n)"
proof -
  have "\<forall>c \<in> set (show_nat n). c \<noteq> CHR ''.'' \<and> \<not> js_is_ws c"
    using show_nat_digits digit_char_props by metis
  moreover have "last (show_nat n) \<in> set (show_nat n)"
    using show_nat_ne [of n] by (rule last_in_set)
  ultimately show ?thesis
    unfolding simple_key_def by auto
qed

lemma json_at_simple_segs:
  "json_at v segs = Some v' \<Longrightarrow> json_keys_simple v \<Longrightarrow> \<forall>s \<in> set segs. simple_key s"
proof (induction v segs rule: json_at.induct)
  case (2 kvs k ks)
  then obtain x where x: "map_of kvs k = Some x" "json_at x ks = Some v'"
    by (auto split: option.splits)
  with "2.prems"(2) have "simple_key k" "json_keys_simple x"
    using map_of_SomeD [OF x(1)] by (force simp: list_all_iff)+
  with "2.IH" [OF x(1)] x(2) show ?case by simp
next
  case (3 xs k ks)
  then have "is_index_numeral k" "json_keys_simple (xs ! digits_val k)"
    by (auto simp: list_all_iff split: if_splits)
  moreover from this(1) have "simple_key k"
    by (metis is_index_numeral_def simple_key_show_nat)
  ultimately show ?case using "3.IH" "3.prems"(1) by (auto split: if_splits)
qed auto

text \<open>The search of a path that is a list of simple segments walks exactly those
  segments from the root.\<close>

lemma search_outcome_dotted:
  assumes "segs \<noteq> []" "\<forall>s \<in> set segs. simple_key s" "js_truthy v"
  shows "search_outcome v (''$'' @ dotted segs) =
           (case search_walk (Some v) segs ''$'' of None \<Rightarrow> PathNotFound
            | Some (_, vp) \<Rightarrow> HighlightAt vp)"
proof -
  have "js_trim (''$'' @ dotted segs) \<noteq> []"
    unfolding js_trim_dotted [OF assms(1,2)] by simp
  then show ?thesis
    unfolding search_outcome_def path_parts_dotted [OF assms(1,2)] using assms(3) by simp
qed


text \<open>A path that key and index lookup accepts, with simple keys, is found by the
  search and highlighted as it was typed.\<close>

lemma search_outcome_json_at:
  assumes at: "json_at v segs = Some v'" and ne: "segs \<noteq> []" and simple: "json_keys_simple v"
  shows "search_outcome v (''$'' @ dotted segs) = HighlightAt (''$'' @ dotted segs)"
proof -
  obtain k ks where "segs = k # ks" using ne by (cases segs) auto
  with at have truthy: "js_truthy v" by (blast intro: json_at_Cons_truthy)
  have segs: "\<forall>s \<in> set segs. simple_key s"
    by (rule json_at_simple_segs [OF at simple])
  show ?thesis
    unfolding search_outcome_dotted [OF ne segs truthy]
    by (simp add: search_walk_json_at [OF at])
qed

subsection \<open>The normalisation against the semantics of replace\<close>

lemma rx_match_star_opt:
  "\<exists>ys. rx_match [RxStar c, RxOpt c] t = dropWhile (\<lambda>x. x = c) t # ys"
proof (induction t)
  case Nil
  then show ?case by simp
next
  case (Cons x r)
  then obtain ys where "rx_match [RxStar c, RxOpt c] r = dropWhile (\<lambda>x. x = c) r # ys" by blast
  then show ?case by auto
qed

lemma rx_match_root_prefix:
  "\<exists>ys. rx_match (rx_terms root_prefix_regex) s
     = dropWhile (\<lambda>c. c = CHR ''.'') (case s of c # r \<Rightarrow> if c = CHR ''$'' then r else s | [] \<Rightarrow> []) # ys"
proof (cases s)
  case (Cons x r)
  obtain ys where r: "rx_match [RxStar CHR ''.'', RxOpt CHR ''.''] r = dropWhile (\<lambda>c. c = CHR ''.'') r # ys"
    using rx_match_star_opt by blast
  obtain zs where s: "rx_match [RxStar CHR ''.'', RxOpt CHR ''.''] s = dropWhile (\<lambda>c. c = CHR ''.'') s # zs"
    using rx_match_star_opt by blast
  show ?thesis
    using r s Cons by (simp add: root_prefix_regex_def)
qed (simp add: root_prefix_regex_def)

lemma strip_root_prefix_replace: "js_replace root_prefix_regex ''$.'' s = strip_root_prefix s"
proof -
  let ?u = "case s of c # r \<Rightarrow> if c = CHR ''$'' then r else s | [] \<Rightarrow> []"
  let ?d = "dropWhile (\<lambda>c. c = CHR ''.'') ?u"
  obtain ys where m: "rx_match (rx_terms root_prefix_regex) s = ?d # ys"
    using rx_match_root_prefix by blast
  have "\<exists>w. s = w @ ?d"
  proof (cases s)
    case (Cons x r)
    then show ?thesis
      by (cases "x = CHR ''$''")
        (auto intro: exI [of _ "CHR ''$'' # takeWhile (\<lambda>c. c = CHR ''.'') r"]
              exI [of _ "takeWhile (\<lambda>c. c = CHR ''.'') s"])
  qed simp
  then obtain w where w: "s = w @ ?d" by blast
  have "find_match root_prefix_regex s 0 = Some (0, length s - length ?d)"
    by (rule find_match_here) (simp_all add: match_at_def m)
  then have "js_replace root_prefix_regex ''$.'' s = ''$.'' @ drop (length s - length ?d) s"
    by (simp add: js_replace_def root_prefix_regex_def)
  also have "drop (length s - length ?d) s = ?d"
  proof -
    have "length s - length ?d = length w" using arg_cong [OF w, of length] by simp
    moreover have "drop (length w) s = ?d" using arg_cong [OF w, of "drop (length w)"] by simp
    ultimately show ?thesis by simp
  qed
  finally show ?thesis by (simp add: strip_root_prefix_def)
qed

lemma match_at_double_dot:
  "drop i s = t \<Longrightarrow> match_at (rx_terms double_dot_regex) s i
     = (case t of a # b # r \<Rightarrow> if a = CHR ''.'' \<and> b = CHR ''.'' then Some 2 else None | _ \<Rightarrow> None)"
  by (auto simp: match_at_def double_dot_regex_def split: list.splits)

lemma collapse_dots_replace: "js_replace double_dot_regex ''.'' s = collapse_dots s"
proof -
  have nonanch: "\<not> rx_anchored double_dot_regex" by (simp add: double_dot_regex_def)
  have end_: "length s \<le> i \<Longrightarrow> splice s ''.'' (all_matches double_dot_regex s i) i = []" for i
    by (rule replace_step_end [OF nonanch]) (simp_all add: match_at_double_dot)
  have "drop i s = t \<Longrightarrow> splice s ''.'' (all_matches double_dot_regex s i) i = collapse_dots t" for i t
  proof (induction t arbitrary: i rule: collapse_dots.induct [case_names pair empty single])
    case (pair a b r)
    from drop_eq_Cons_nth [OF pair.prems]
    have i: "i < length s" "s ! i = a" "drop (Suc i) s = b # r" by simp_all
    from drop_eq_Cons_nth [OF i(3)] have r: "drop (Suc (Suc i)) s = r" by simp
    show ?case
    proof (cases "a = CHR ''.'' \<and> b = CHR ''.''")
      case True
      have "splice s ''.'' (all_matches double_dot_regex s i) i
          = ''.'' @ splice s ''.'' (all_matches double_dot_regex s (i + 2)) (i + 2)"
        using pair.prems True i(1)
        by (intro replace_step_match [OF nonanch]) (simp_all add: match_at_double_dot)
      with pair.IH(1) [OF True] r True show ?thesis by simp
    next
      case False
      have "splice s ''.'' (all_matches double_dot_regex s i) i
          = a # splice s ''.'' (all_matches double_dot_regex s (Suc i)) (Suc i)"
        using pair.prems False i(1,2)
        by (subst replace_step_copy [OF nonanch]) (simp_all add: match_at_double_dot)
      also have "\<dots> = a # collapse_dots (b # r)"
        using pair.IH(2) [OF False] i(3) by simp
      also have "\<dots> = collapse_dots (a # b # r)"
        using False by auto
      finally show ?thesis .
    qed
  next
    case empty
    then show ?case using end_ by simp
  next
    case (single v)
    from drop_eq_Cons_nth [OF single]
    have i: "i < length s" "s ! i = v" "drop (Suc i) s = []" by simp_all
    have "splice s ''.'' (all_matches double_dot_regex s i) i
        = v # splice s ''.'' (all_matches double_dot_regex s (Suc i)) (Suc i)"
      using single i(1,2) by (subst replace_step_copy [OF nonanch]) (simp_all add: match_at_double_dot)
    with i(3) end_ [of "Suc i"] show ?case by simp
  qed
  then show ?thesis by (simp add: js_replace_def double_dot_regex_def)
qed

subsection \<open>Properties of the path search\<close>

text \<open>C3. A successful search highlights exactly the normalised query: \<open>validPath\<close>
  accumulates the segments of \<open>cleanedPath\<close> behind \<open>$\<close>, so it rebuilds
  \<open>cleanedPath\<close> itself, whatever the walk went through.\<close>

theorem search_highlight_is_clean_path:
  assumes "search_outcome data q = HighlightAt p"
  shows "p = clean_path q"
proof -
  from assms obtain c where "search_walk (Some data) (path_parts q) ''$'' = Some (c, p)"
    by (rule search_outcome_HighlightAt)
  then have "p = ''$'' @ dotted (path_parts q)" by (rule search_walk_path)
  then show ?thesis using clean_path_parts [of q] by simp
qed

theorem search_highlight_is_clean_path_witness:
  "search_outcome (JObj [(''user'', JObj [(''address'', JObj [(''city'', JStr ''New York'')])])])
     '' user..address.city '' = HighlightAt ''$.user.address.city''
   \<and> ''$.user.address.city'' = clean_path '' user..address.city ''"
  using search_highlight_is_clean_path
    [of "JObj [(''user'', JObj [(''address'', JObj [(''city'', JStr ''New York'')])])]"
        "'' user..address.city ''" "''$.user.address.city''"]
  by (simp add: js_eval)

text \<open>C13. An array index past the end is reported as found: the \<open>parseInt\<close>
  branch reads \<open>current[i]\<close> without a bounds check, so the search highlights a path
  that no value of the document (and no node of the tree) has, where the spec requires
  the index to be within bounds.\<close>

theorem search_accepts_out_of_range_index:
  assumes at: "json_at v segs = Some (JArr xs)"
    and simple: "\<forall>s \<in> set segs. simple_key s"
    and big: "length xs \<le> i"
  shows "search_outcome v (''$'' @ dotted (segs @ [show_nat i]))
           = HighlightAt (''$'' @ dotted (segs @ [show_nat i]))
         \<and> json_at v (segs @ [show_nat i]) = None"
proof -
  have simple': "\<forall>s \<in> set (segs @ [show_nat i]). simple_key s"
    using simple simple_key_show_nat by auto
  have truthy: "js_truthy v"
    using at by (cases segs) (auto dest: json_at_Cons_truthy)
  have "\<not> has_own (JArr xs) (show_nat i)"
    using big index_numeral_not_length [OF is_index_numeral_show_nat [of i]] by simp
  then have "search_walk (Some (JArr xs)) [show_nat i] (''$'' @ dotted segs)
      = Some (None, ''$'' @ dotted (segs @ [show_nat i]))"
    using big by (simp add: index_get_def)
  then have "search_walk (Some v) (segs @ [show_nat i]) ''$''
      = Some (None, ''$'' @ dotted (segs @ [show_nat i]))"
    by (simp add: search_walk_append search_walk_json_at [OF at])
  moreover have "json_at v (segs @ [show_nat i]) = None"
    using big by (simp add: json_at_append at)
  moreover have "segs @ [show_nat i] \<noteq> []" by simp
  note eq = search_outcome_dotted [OF this simple' truthy]
  ultimately show ?thesis
    unfolding eq by simp
qed

theorem search_accepts_out_of_range_index_witness:
  "json_at (JObj [(''items'', JArr [JNum 1, JNum 2])]) [''items''] = Some (JArr [JNum 1, JNum 2])
   \<and> search_outcome (JObj [(''items'', JArr [JNum 1, JNum 2])]) ''$.items.5'' = HighlightAt ''$.items.5''
   \<and> json_at (JObj [(''items'', JArr [JNum 1, JNum 2])]) [''items'', ''5''] = None"
  using search_accepts_out_of_range_index
    [of "JObj [(''items'', JArr [JNum 1, JNum 2])]" "[''items'']" "[JNum 1, JNum 2]" 5]
  by (simp add: js_eval)

text \<open>C14. The \<open>length\<close> property of an array is reported as found: it is an own
  property, so \<open>hasOwnProperty\<close> accepts it, and the search highlights a path that
  names no element of the document.\<close>

theorem search_accepts_length:
  assumes at: "json_at v segs = Some (JArr xs)"
    and simple: "\<forall>s \<in> set segs. simple_key s"
  shows "search_outcome v (''$'' @ dotted (segs @ [''length'']))
           = HighlightAt (''$'' @ dotted (segs @ [''length'']))
         \<and> json_at v (segs @ [''length'']) = None"
proof -
  have "simple_key ''length''" by (simp add: simple_key_def js_is_ws_def)
  then have simple': "\<forall>s \<in> set (segs @ [''length'']). simple_key s"
    using simple by auto
  have truthy: "js_truthy v"
    using at by (cases segs) (auto dest: json_at_Cons_truthy)
  have "search_walk (Some v) (segs @ [''length'']) ''$''
      = Some (Some (JNum (int (length xs))), ''$'' @ dotted (segs @ [''length'']))"
    by (simp add: search_walk_append search_walk_json_at [OF at])
  moreover have "\<not> is_index_numeral ''length''"
    by (simp add: is_index_numeral_def is_digit_def)
  then have "json_at v (segs @ [''length'']) = None"
    by (simp add: json_at_append at)
  moreover have "segs @ [''length''] \<noteq> []" by simp
  note eq = search_outcome_dotted [OF this simple' truthy]
  ultimately show ?thesis
    unfolding eq by simp
qed

theorem search_accepts_length_witness:
  "json_at (JObj [(''items'', JArr [JNum 1, JNum 2])]) [''items''] = Some (JArr [JNum 1, JNum 2])
   \<and> search_outcome (JObj [(''items'', JArr [JNum 1, JNum 2])]) ''$.items.length''
       = HighlightAt ''$.items.length''"
  using search_accepts_length
    [of "JObj [(''items'', JArr [JNum 1, JNum 2])]" "[''items'']" "[JNum 1, JNum 2]"]
  by (simp add: js_eval)

text \<open>C15. The root can never be highlighted: the query \<open>$\<close> is normalised to
  \<open>$.\<close>, whose one segment is the empty key, so on any document without an empty
  key the search reports "not found", although the root node's path is \<open>$\<close>.\<close>

theorem search_root_not_found:
  assumes "js_truthy v" "\<not> has_own v []"
  shows "search_outcome v ''$'' = PathNotFound"
proof -
  have parts: "path_parts ''$'' = [[]]"
    by (simp add: path_parts_def clean_path_def strip_root_prefix_def js_trim_def js_is_ws_def)
  have "parse_int [] = None"
    by (simp add: parse_int_def parse_sign_def parse_radix_def)
  then have "search_walk (Some v) [[]] ''$'' = None"
    using assms(2) by (simp split: json.split)
  then show ?thesis
    using assms(1) by (simp add: search_outcome_def parts js_trim_def js_is_ws_def)
qed

theorem search_root_not_found_witness:
  "js_truthy (JObj [(''a'', JNull)]) \<and> \<not> has_own (JObj [(''a'', JNull)]) []
   \<and> search_outcome (JObj [(''a'', JNull)]) ''$'' = PathNotFound"
  using search_root_not_found [of "JObj [(''a'', JNull)]"] by simp

text \<open>C16. The clean-up of double dots halves runs of dots instead of collapsing them:
  the global replacement of \<open>..\<close> by \<open>.\<close> turns a run of \<open>n\<close> dots into
  \<open>\<lceil>n/2\<rceil>\<close> dots, so \<open>a...b\<close> keeps an empty segment, where the spec says
  every run becomes a single dot.\<close>

theorem collapse_dots_run:
  "collapse_dots (replicate n CHR ''.'') = replicate ((n + 1) div 2) CHR ''.''"
proof (induction n rule: less_induct)
  case (less n)
  show ?case
  proof (cases n)
    case (Suc m)
    show ?thesis
    proof (cases m)
      case (Suc k)
      with \<open>n = Suc m\<close> less.IH [of k] show ?thesis by simp
    qed (simp add: \<open>n = Suc m\<close>)
  qed simp
qed


text \<open>C23. The query normalisation of \<open>handleSearch\<close>, its trim followed by
  \<open>.replace(/^\$?\.*\.?/, "$.")\<close> and \<open>.replace(/\.\./g, ".")\<close> run by the reference
  semantics of \<open>String.prototype.replace\<close>, is the specialised \<open>clean_path\<close> that the
  search lemmas use.\<close>

theorem clean_path_replace:
  "js_replace double_dot_regex ''.'' (js_replace root_prefix_regex ''$.'' (js_trim q)) = clean_path q"
  by (simp add: clean_path_def strip_root_prefix_replace collapse_dots_replace)

end
