(* ===== verification/TreeBuilder.thy ===== *)
theory TreeBuilder
  imports Json
begin

text \<open>
  The tree builder of \<open>src/src/components/JsonTree.js\<close>: \<open>buildNode\<close> (lines 5--30),
  which turns a parsed value into the render tree with one canonical path per node, and
  the memoised \<open>treeData\<close> (lines 82--92), which guards on the truthiness of the
  document and collapses a single-key top-level object into its only entry. The three
  object shapes the code returns (a leaf with \<open>isLeaf\<close> and \<open>value\<close>, an array node
  with \<open>isArray\<close>, an object node) are the three constructors of \<open>tree_node\<close>.
\<close>

datatype tree_node =
    LeafNode js_string canonical_path js_string   \<comment> \<open>\<open>name\<close>, \<open>__path\<close>, \<open>value\<close>\<close>
  | ArrayNode js_string canonical_path "tree_node list"  \<comment> \<open>\<open>name\<close>, \<open>__path\<close>, \<open>children\<close>\<close>
  | ObjectNode js_string canonical_path "tree_node list"

fun node_name :: "tree_node \<Rightarrow> js_string" where
  "node_name (LeafNode n _ _) = n"
| "node_name (ArrayNode n _ _) = n"
| "node_name (ObjectNode n _ _) = n"

fun node_path :: "tree_node \<Rightarrow> canonical_path" where
  "node_path (LeafNode _ p _) = p"
| "node_path (ArrayNode _ p _) = p"
| "node_path (ObjectNode _ p _) = p"

fun node_children :: "tree_node \<Rightarrow> tree_node list" where
  "node_children (LeafNode _ _ _) = []"
| "node_children (ArrayNode _ _ cs) = cs"
| "node_children (ObjectNode _ _ cs) = cs"

subsection \<open>buildNode\<close>

text \<open>A primitive becomes a leaf whose value is \<open>String(value)\<close>, or for a string the
  string with every double quote removed; an array maps its items with the index as name;
  an object maps \<open>Object.entries\<close>. Recursion through \<open>map\<close> over the entries, which
  are a permutation of the members: the termination measure is the size of the value.\<close>

function build_node :: "json \<Rightarrow> js_string \<Rightarrow> canonical_path \<Rightarrow> tree_node" where
  "build_node JNull key path = LeafNode key path ''null''"
| "build_node (JBool b) key path = LeafNode key path (if b then ''true'' else ''false'')"
| "build_node (JNum n) key path = LeafNode key path (show_int n)"
| "build_node (JStr s) key path = LeafNode key path (strip_quotes s)"
| "build_node (JArr xs) key path =
     ArrayNode key path
       (map (\<lambda>(i, item). build_node item (show_nat i) (path @ ''.'' @ show_nat i)) (enumerate 0 xs))"
| "build_node (JObj kvs) key path =
     ObjectNode key path (map (\<lambda>(k, v). build_node v k (path @ ''.'' @ k)) (js_entries kvs))"
  by pat_completeness auto
termination
proof (relation "measure (\<lambda>(v, _, _). size v)")
  show "wf (measure (\<lambda>(v, _, _). size v))" by simp
next
  fix xs :: "json list" and key path x i item
  assume "x \<in> set (enumerate 0 xs)" "(i, item) = x"
  then have "item \<in> set xs" by (auto simp: in_set_enumerate_eq)
  then show "((item, show_nat i, path @ ''.'' @ show_nat i), JArr xs, key, path)
      \<in> measure (\<lambda>(v, _, _). size v)"
    using size_JArr_member [of item xs] by simp
next
  fix kvs :: "(js_string \<times> json) list" and key path x k v
  assume "x \<in> set (js_entries kvs)" "(k, v) = x"
  then have "(k, v) \<in> set kvs" by simp
  then show "((v, k, path @ ''.'' @ k), JObj kvs, key, path) \<in> measure (\<lambda>(v, _, _). size v)"
    using size_JObj_member [of k v kvs] by simp
qed

subsection \<open>treeData\<close>

text \<open>\<open>if (!data) return null\<close>; a non-array object with exactly one key \<open>k\<close> is
  rendered from \<open>data[k]\<close> with name \<open>k\<close> and path \<open>$.k\<close>; anything else from the
  root with name and path \<open>$\<close>. \<open>data[k]\<close> reads an own member, so \<open>the\<close> is
  applied to a defined value.\<close>

definition tree_data :: "json \<Rightarrow> tree_node option" where
  "tree_data data =
     (if \<not> js_truthy data then None
      else case data of
        JObj kvs \<Rightarrow>
          (case js_keys kvs of
             [k] \<Rightarrow> Some (build_node (the (get_prop data k)) k (''$.'' @ k))
           | _ \<Rightarrow> Some (build_node data ''$'' ''$''))
      | _ \<Rightarrow> Some (build_node data ''$'' ''$''))"

subsection \<open>The nodes of a tree\<close>

text \<open>Every node reachable from a root, in pre-order: the nodes the renderer draws.\<close>

fun tree_nodes :: "tree_node \<Rightarrow> tree_node list" where
  "tree_nodes (LeafNode n p v) = [LeafNode n p v]"
| "tree_nodes (ArrayNode n p cs) = ArrayNode n p cs # concat (map tree_nodes cs)"
| "tree_nodes (ObjectNode n p cs) = ObjectNode n p cs # concat (map tree_nodes cs)"

fun leaf_count :: "tree_node \<Rightarrow> nat" where
  "leaf_count (LeafNode _ _ _) = 1"
| "leaf_count (ArrayNode _ _ cs) = sum_list (map leaf_count cs)"
| "leaf_count (ObjectNode _ _ cs) = sum_list (map leaf_count cs)"

text \<open>Documents whose object keys contain no dot: on them the dot-separated paths
  determine the segments.\<close>

fun json_keys_dotfree :: "json \<Rightarrow> bool" where
  "json_keys_dotfree (JArr xs) = list_all json_keys_dotfree xs"
| "json_keys_dotfree (JObj kvs) =
     (list_all (\<lambda>k. CHR ''.'' \<notin> set k) (map fst kvs) \<and> list_all json_keys_dotfree (map snd kvs))"
| "json_keys_dotfree _ = True"

text \<open>The shape every tree of \<open>buildNode\<close> has, which the renderer and the search rely
  on: a child's path is its parent's path, a dot and the child's name, and the children
  of an array node are named by their indices \<open>0, 1, \<dots>\<close> in order.\<close>

fun tree_wf :: "tree_node \<Rightarrow> bool" where
  "tree_wf (LeafNode _ _ _) = True"
| "tree_wf (ArrayNode n p cs) =
     (map node_name cs = map show_nat [0..<length cs]
      \<and> list_all (\<lambda>c. node_path c = p @ ''.'' @ node_name c \<and> tree_wf c) cs)"
| "tree_wf (ObjectNode n p cs) = list_all (\<lambda>c. node_path c = p @ ''.'' @ node_name c \<and> tree_wf c) cs"

declare tree_data_def [js_eval]

subsection \<open>Lemmas\<close>

lemma map_enumerate_fst: "map (\<lambda>(i, x). f i) (enumerate n xs) = map f [n..<n + length xs]"
proof (induction xs arbitrary: n)
  case (Cons x xs)
  have "[n..<n + length (x # xs)] = n # [Suc n..<Suc n + length xs]"
    by (simp add: upt_conv_Cons del: upt_Suc)
  with Cons.IH show ?case by simp
qed simp

lemma digit_char_not_quote:
  assumes "d < 10"
  shows "digit_char d \<noteq> CHR 0x22"
  using digit_char_cases [OF assms] by (elim disjE) (simp_all add: digit_char_def)

lemma show_nat_no_quote: "CHR 0x22 \<notin> set (show_nat n)"
proof
  assume "CHR 0x22 \<in> set (show_nat n)"
  then obtain d where "d < 10" "CHR 0x22 = digit_char d"
    using show_nat_digits by blast
  then show False using digit_char_not_quote by metis
qed
lemma show_int_no_quote: "CHR 0x22 \<notin> set (show_int i)"
  by (simp add: show_int_def show_nat_no_quote)

lemma build_node_name_path [simp]:
  "node_name (build_node v k p) = k" "node_path (build_node v k p) = p"
  by (cases v; simp)+

lemma in_set_tree_nodes:
  "n \<in> set (tree_nodes t) \<longleftrightarrow> n = t \<or> (\<exists>c \<in> set (node_children t). n \<in> set (tree_nodes c))"
  by (cases t) auto

lemma tree_nodes_self [simp]: "t \<in> set (tree_nodes t)"
  by (cases t) auto

lemma build_node_nodes_replay:
  "json_wf v \<Longrightarrow> n \<in> set (tree_nodes (build_node v k p)) \<Longrightarrow>
   \<exists>segs v'. json_at v segs = Some v' \<and>
     n = build_node v' (if segs = [] then k else last segs) (p @ dotted segs)"
proof (induction v k p arbitrary: n rule: build_node.induct)
  case (5 xs key path)
  show ?case
  proof (cases "n = build_node (JArr xs) key path")
    case True
    then show ?thesis by (intro exI [of _ "[]"]) simp
  next
    case False
    with "5.prems"(2) obtain i item where ii: "(i, item) \<in> set (enumerate 0 xs)"
      and n: "n \<in> set (tree_nodes (build_node item (show_nat i) (path @ ''.'' @ show_nat i)))"
      by (subst (asm) in_set_tree_nodes) auto
    from ii have i: "i < length xs" "item = xs ! i"
      by (auto simp: in_set_enumerate_eq)
    with "5.prems"(1) have "json_wf item" by (simp add: list_all_iff)
    with "5.IH" [OF ii refl this n] obtain segs v' where
      at: "json_at item segs = Some v'" and
      nv: "n = build_node v' (if segs = [] then show_nat i else last segs)
                 ((path @ ''.'' @ show_nat i) @ dotted segs)"
      by blast
    from i at have "json_at (JArr xs) (show_nat i # segs) = Some v'" by simp
    with nv show ?thesis by (intro exI [of _ "show_nat i # segs"]) auto
  qed
next
  case (6 kvs key path)
  show ?case
  proof (cases "n = build_node (JObj kvs) key path")
    case True
    then show ?thesis by (intro exI [of _ "[]"]) simp
  next
    case False
    with "6.prems"(2) obtain k v where kv: "(k, v) \<in> set (js_entries kvs)"
      and n: "n \<in> set (tree_nodes (build_node v k (path @ ''.'' @ k)))"
      by (subst (asm) in_set_tree_nodes) auto
    from kv "6.prems"(1) have wf: "json_wf v" and look: "map_of kvs k = Some v"
      using json_wf_member by auto
    with "6.IH" [OF kv refl wf n] obtain segs v' where
      at: "json_at v segs = Some v'" and
      nv: "n = build_node v' (if segs = [] then k else last segs) ((path @ ''.'' @ k) @ dotted segs)"
      by blast
    from look at have "json_at (JObj kvs) (k # segs) = Some v'" by simp
    with nv show ?thesis by (intro exI [of _ "k # segs"]) auto
  qed
qed (intro exI [of _ "[]"], simp)+


lemma tree_data_eq:
  "tree_data v =
     (if \<not> js_truthy v then None
      else case v of
        JObj [(k, x)] \<Rightarrow> Some (build_node x k (''$.'' @ k))
      | _ \<Rightarrow> Some (build_node v ''$'' ''$''))"
proof (cases v)
  case (JObj kvs)
  show ?thesis
  proof (cases "\<exists>k x. kvs = [(k, x)]")
    case True
    then obtain k x where "kvs = [(k, x)]" by blast
    with JObj show ?thesis by (simp add: tree_data_def js_keys_def)
  next
    case False
    then have "\<forall>k. js_keys kvs \<noteq> [k]" by (simp add: js_keys_single_iff)
    then have "(case js_keys kvs of [k] \<Rightarrow> Some (build_node (the (get_prop (JObj kvs) k)) k (''$.'' @ k))
              | _ \<Rightarrow> Some (build_node (JObj kvs) ''$'' ''$'')) = Some (build_node (JObj kvs) ''$'' ''$'')"
      by (auto split: list.split)
    moreover have "(case kvs of [(k, x)] \<Rightarrow> Some (build_node x k (''$.'' @ k))
              | _ \<Rightarrow> Some (build_node (JObj kvs) ''$'' ''$'')) = Some (build_node (JObj kvs) ''$'' ''$'')"
      using False by (auto split: list.split prod.split)
    ultimately show ?thesis unfolding JObj tree_data_def by (simp only: js_truthy.simps if_False not_True_eq_False json.case)
  qed
qed (simp_all add: tree_data_def)


lemma tree_data_Some_cases:
  assumes "tree_data v = Some t"
  shows "t = build_node v ''$'' ''$'' \<or> (\<exists>k x. v = JObj [(k, x)] \<and> t = build_node x k (''$.'' @ k))"
  using assms by (auto simp: tree_data_eq split: if_splits json.splits list.splits prod.splits)

lemma json_at_dotfree_segs:
  "json_at v segs = Some v' \<Longrightarrow> json_keys_dotfree v \<Longrightarrow> \<forall>s \<in> set segs. CHR ''.'' \<notin> set s"
proof (induction v segs rule: json_at.induct)
  case (2 kvs k ks)
  then obtain x where x: "map_of kvs k = Some x" "json_at x ks = Some v'"
    by (auto split: option.splits)
  with "2.prems"(2) have "CHR ''.'' \<notin> set k" "json_keys_dotfree x"
    using map_of_SomeD [OF x(1)] by (force simp: list_all_iff)+
  with "2.IH" [OF x(1)] x(2) show ?case by simp
next
  case (3 xs k ks)
  then have "is_index_numeral k" "json_keys_dotfree (xs ! digits_val k)"
    by (auto simp: list_all_iff split: if_splits)
  moreover from this(1) have "CHR ''.'' \<notin> set k"
    using show_nat_digits digit_char_props by (metis is_index_numeral_def)
  ultimately show ?case using "3.IH" "3.prems"(1) by (auto split: if_splits)
qed auto

lemma build_node_paths_inj:
  assumes "json_wf v" "json_keys_dotfree v"
    and "n1 \<in> set (tree_nodes (build_node v k p))" "n2 \<in> set (tree_nodes (build_node v k p))"
    and "node_path n1 = node_path n2"
  shows "n1 = n2"
proof -
  obtain segs1 v1 where at1: "json_at v segs1 = Some v1"
    and n1: "n1 = build_node v1 (if segs1 = [] then k else last segs1) (p @ dotted segs1)"
    using build_node_nodes_replay [OF assms(1,3)] by blast
  obtain segs2 v2 where at2: "json_at v segs2 = Some v2"
    and n2: "n2 = build_node v2 (if segs2 = [] then k else last segs2) (p @ dotted segs2)"
    using build_node_nodes_replay [OF assms(1,4)] by blast
  have "dotted segs1 = dotted segs2" using assms(5) n1 n2 by simp
  then have "segs1 = segs2"
    using dotted_inj json_at_dotfree_segs [OF at1 assms(2)] json_at_dotfree_segs [OF at2 assms(2)]
    by blast
  with at1 at2 n1 n2 show ?thesis by simp
qed


lemma show_nat_no_dot: "CHR ''.'' \<notin> set (show_nat i)"
proof
  assume "CHR ''.'' \<in> set (show_nat i)"
  then obtain d where "d < 10" "CHR ''.'' = digit_char d"
    using show_nat_digits by blast
  then show False using digit_char_props by metis
qed

lemma build_node_subtree_paths:
  assumes "json_wf v" "json_keys_dotfree v" "m \<in> set (tree_nodes (build_node v k p))"
  shows "\<exists>segs. node_path m = p @ dotted segs \<and> (\<forall>s \<in> set segs. CHR ''.'' \<notin> set s)"
proof -
  obtain segs v' where at: "json_at v segs = Some v'"
    and m: "m = build_node v' (if segs = [] then k else last segs) (p @ dotted segs)"
    using build_node_nodes_replay [OF assms(1,3)] by blast
  then show ?thesis using json_at_dotfree_segs [OF at assms(2)] by auto
qed

text \<open>Children whose subtrees are labelled below distinct first segments contribute
  disjoint sets of paths.\<close>

lemma distinct_concat_prefixed:
  assumes "distinct (map f cs)" "\<forall>c \<in> set cs. distinct (g c)" "\<forall>c \<in> set cs. CHR ''.'' \<notin> set (f c)"
    and "\<forall>c \<in> set cs. \<forall>x \<in> set (g c).
           \<exists>segs. x = p @ dotted (f c # segs) \<and> (\<forall>s \<in> set segs. CHR ''.'' \<notin> set s)"
  shows "distinct (concat (map g cs))"
  using assms
proof (induction cs)
  case (Cons c cs)
  have "set (g c) \<inter> set (concat (map g cs)) = {}"
  proof (rule ccontr)
    assume "set (g c) \<inter> set (concat (map g cs)) \<noteq> {}"
    then obtain x c' where x: "x \<in> set (g c)" "c' \<in> set cs" "x \<in> set (g c')" by auto
    from Cons.prems(4) x obtain s1 s2 where
      "x = p @ dotted (f c # s1)" "\<forall>s \<in> set s1. CHR ''.'' \<notin> set s"
      "x = p @ dotted (f c' # s2)" "\<forall>s \<in> set s2. CHR ''.'' \<notin> set s"
      by (metis list.set_intros(1) list.set_intros(2))
    with Cons.prems(3) x(2) have "f c # s1 = f c' # s2"
      using dotted_inj [of "f c # s1" "f c' # s2"] by auto
    with Cons.prems(1) x(2) show False by auto
  qed
  with Cons show ?case by auto
qed simp

lemma build_node_paths_distinct:
  "json_wf v \<Longrightarrow> json_keys_dotfree v \<Longrightarrow> distinct (map node_path (tree_nodes (build_node v k p)))"
proof (induction v k p rule: build_node.induct)
  case (5 xs key path)
  let ?cs = "map (\<lambda>(i, item). build_node item (show_nat i) (path @ ''.'' @ show_nat i)) (enumerate 0 xs)"
  let ?g = "\<lambda>c. map node_path (tree_nodes c)"
  have elem: "(i, item) \<in> set (enumerate 0 xs) \<Longrightarrow> json_wf item \<and> json_keys_dotfree item" for i item
    using "5.prems" by (auto simp: in_set_enumerate_eq list_all_iff)
  have names: "map node_name ?cs = map show_nat [0..<length xs]"
    by (simp add: comp_def case_prod_unfold map_enumerate_fst [of show_nat, simplified case_prod_unfold])
  have "distinct (concat (map ?g ?cs))"
  proof (rule distinct_concat_prefixed [where f = node_name and p = path])
    show "distinct (map node_name ?cs)"
      unfolding names by (simp add: distinct_map inj_on_def show_nat_inj)
    show "\<forall>c \<in> set ?cs. distinct (?g c)" using "5.IH" elem by fastforce
    show "\<forall>c \<in> set ?cs. CHR ''.'' \<notin> set (node_name c)" by (auto simp: show_nat_no_dot)
    show "\<forall>c \<in> set ?cs. \<forall>x \<in> set (?g c).
        \<exists>segs. x = path @ dotted (node_name c # segs) \<and> (\<forall>s \<in> set segs. CHR ''.'' \<notin> set s)"
      using build_node_subtree_paths elem by fastforce
  qed
  moreover have "path \<notin> set (concat (map ?g ?cs))"
    using build_node_subtree_paths elem by fastforce
  ultimately show ?case by (simp add: comp_def map_concat)
next
  case (6 kvs key path)
  let ?cs = "map (\<lambda>(k, v). build_node v k (path @ ''.'' @ k)) (js_entries kvs)"
  let ?g = "\<lambda>c. map node_path (tree_nodes c)"
  have elem: "(k, v) \<in> set (js_entries kvs) \<Longrightarrow> json_wf v \<and> json_keys_dotfree v \<and> CHR ''.'' \<notin> set k"
    for k v
    using "6.prems" json_wf_member [of kvs k v] by (force simp: list_all_iff)
  have names: "map node_name ?cs = js_keys kvs"
    by (simp add: comp_def case_prod_unfold js_keys_def)
  have "distinct (concat (map ?g ?cs))"
  proof (rule distinct_concat_prefixed [where f = node_name and p = path])
    show "distinct (map node_name ?cs)"
      unfolding names using "6.prems"(1) by (simp add: distinct_js_keys)
    show "\<forall>c \<in> set ?cs. distinct (?g c)" using "6.IH" elem by fastforce
    show "\<forall>c \<in> set ?cs. CHR ''.'' \<notin> set (node_name c)" using elem by auto
    show "\<forall>c \<in> set ?cs. \<forall>x \<in> set (?g c).
        \<exists>segs. x = path @ dotted (node_name c # segs) \<and> (\<forall>s \<in> set segs. CHR ''.'' \<notin> set s)"
      using build_node_subtree_paths elem by fastforce
  qed
  moreover have "path \<notin> set (concat (map ?g ?cs))"
    using build_node_subtree_paths elem by fastforce
  ultimately show ?case by (simp add: comp_def map_concat)
qed simp_all


subsection \<open>Properties of the tree builder\<close>

text \<open>C2. Every node of the tree built from a well-formed value carries the path of
  its position: the root path followed by one dot-prefixed segment per step, and replaying
  the segments by key and index lookup from the value reaches the value the node was built
  from, with the node's own name and path.\<close>

theorem build_node_paths_replay:
  assumes "json_wf v" "n \<in> set (tree_nodes (build_node v k p))"
  shows "\<exists>segs v'. json_at v segs = Some v' \<and> node_path n = p @ dotted segs
           \<and> n = build_node v' (node_name n) (node_path n)"
proof -
  obtain segs v' where at: "json_at v segs = Some v'"
    and n: "n = build_node v' (if segs = [] then k else last segs) (p @ dotted segs)"
    using build_node_nodes_replay [OF assms] by blast
  then show ?thesis by (intro exI [of _ segs] exI [of _ v']) simp
qed

theorem build_node_paths_replay_witness:
  "json_wf (JArr [JNull]) \<and> LeafNode ''0'' ''$.0'' ''null'' \<in> set (tree_nodes (build_node (JArr [JNull]) ''$'' ''$''))
   \<and> (\<exists>segs v'. json_at (JArr [JNull]) segs = Some v' \<and> node_path (LeafNode ''0'' ''$.0'' ''null'') = ''$'' @ dotted segs
        \<and> LeafNode ''0'' ''$.0'' ''null'' = build_node v' (node_name (LeafNode ''0'' ''$.0'' ''null'')) (node_path (LeafNode ''0'' ''$.0'' ''null'')))"
  using build_node_paths_replay [of "JArr [JNull]" "LeafNode ''0'' ''$.0'' ''null''" "''$''" "''$''"]
  by (simp add: js_eval)

text \<open>C4. The tree has one leaf per primitive value (null, boolean, number, string)
  of the document: \<open>Object.entries\<close> reorders the members of an object but drops and
  duplicates none.\<close>

theorem leaf_count_build_node: "leaf_count (build_node v k p) = prim_count v"
proof (induction v k p rule: build_node.induct)
  case (5 xs key path)
  have "map (\<lambda>x. leaf_count (case x of (i, item) \<Rightarrow> build_node item (show_nat i) (path @ ''.'' @ show_nat i))) (enumerate 0 xs)
      = map (\<lambda>(i, item). prim_count item) (enumerate 0 xs)"
    using "5.IH" by (intro map_cong) auto
  then show ?case by (simp add: map_enumerate_snd comp_def)
next
  case (6 kvs key path)
  let ?child = "\<lambda>x. leaf_count (case x of (k, v) \<Rightarrow> build_node v k (path @ ''.'' @ k))"
  have eq: "map ?child (js_entries kvs) = map (\<lambda>(k, v). prim_count v) (js_entries kvs)"
    using "6.IH" by (intro map_cong) auto
  have "leaf_count (build_node (JObj kvs) key path) = sum_list (map ?child (js_entries kvs))"
    by (simp only: build_node.simps leaf_count.simps map_map comp_def)
  also have "\<dots> = sum_list (map (\<lambda>(k, v). prim_count v) (js_entries kvs))"
    by (simp only: eq)
  also have "\<dots> = sum_list (map (\<lambda>(k, v). prim_count v) kvs)"
    by (rule sum_list_map_mset_eq) (rule mset_js_entries)
  also have "\<dots> = prim_count (JObj kvs)"
    by (simp add: case_prod_unfold comp_def)
  finally show ?case .
qed simp_all


text \<open>C5. Fan-out: an array node has one child per element, named by its index
  \<open>0 .. length - 1\<close> in order; an object node has one child per member, named by the
  keys in \<open>Object.keys\<close> order.\<close>

theorem build_node_children_names:
  "map node_name (node_children (build_node (JArr xs) k p)) = map show_nat [0..<length xs]
   \<and> map node_name (node_children (build_node (JObj kvs) k p)) = js_keys kvs"
  by (simp add: comp_def case_prod_unfold map_enumerate_fst [of show_nat, simplified case_prod_unfold]
      js_keys_def)

text \<open>C6. Root collapsing: a top-level object with exactly one member is displayed from
  that member's value, named by its key and rooted at \<open>$.key\<close>; a top-level object
  with zero or several members is displayed unmodified from \<open>$\<close>.\<close>

theorem tree_data_root_collapsing:
  "tree_data (JObj [(k, x)]) = Some (build_node x k (''$.'' @ k))
   \<and> (length kvs \<noteq> 1 \<longrightarrow> tree_data (JObj kvs) = Some (build_node (JObj kvs) ''$'' ''$''))"
  by (auto simp: tree_data_eq length_Suc_conv split: list.split)

theorem tree_data_root_collapsing_witness:
  "length ([] :: (js_string \<times> json) list) \<noteq> 1
   \<and> tree_data (JObj []) = Some (build_node (JObj []) ''$'' ''$'')
   \<and> tree_data (JObj [(''user'', JNum 1)]) = Some (LeafNode ''user'' ''$.user'' ''1'')"
  using tree_data_root_collapsing [of "''user''" "JNum 1" "[]"]
  by (simp add: js_eval)

text \<open>C7. The collapsed display tree is part of the full tree: every node the component
  renders is a node of \<open>buildNode(data, "$", "$")\<close>, with the same path.\<close>

theorem tree_data_subtree:
  assumes "tree_data v = Some t"
  shows "set (tree_nodes t) \<subseteq> set (tree_nodes (build_node v ''$'' ''$''))"
  using tree_data_Some_cases [OF assms] by auto

theorem tree_data_subtree_witness:
  "tree_data (JObj [(''a'', JNull)]) = Some (LeafNode ''a'' ''$.a'' ''null'')
   \<and> set (tree_nodes (LeafNode ''a'' ''$.a'' ''null''))
       \<subseteq> set (tree_nodes (build_node (JObj [(''a'', JNull)]) ''$'' ''$''))"
  using tree_data_subtree [of "JObj [(''a'', JNull)]" "LeafNode ''a'' ''$.a'' ''null''"]
  by (simp add: js_eval)

text \<open>C17. A document is rendered exactly when it is truthy: the guard \<open>if (!data)\<close>
  also rejects the valid JSON documents \<open>0\<close>, \<open>false\<close> and \<open>""\<close> (and
  \<open>null\<close>), which show "No data to visualize" instead of a leaf.\<close>

theorem tree_data_None_iff: "tree_data v = None \<longleftrightarrow> \<not> js_truthy v"
  by (simp add: tree_data_eq split: json.split list.split prod.split)

text \<open>C21. Leaf values never contain a double quote: strings are displayed with every
  \<open>"\<close> removed, and the other primitives print without one.\<close>

theorem leaf_values_no_quote:
  "LeafNode nm pa d \<in> set (tree_nodes (build_node v k p)) \<Longrightarrow> CHR 0x22 \<notin> set d"
proof (induction v k p rule: build_node.induct)
  case (5 xs key path)
  from "5.prems" obtain i item where "(i, item) \<in> set (enumerate 0 xs)"
    "LeafNode nm pa d \<in> set (tree_nodes (build_node item (show_nat i) (path @ ''.'' @ show_nat i)))"
    by auto
  with "5.IH" show ?case by blast
next
  case (6 kvs key path)
  from "6.prems" obtain kk vv where "(kk, vv) \<in> set (js_entries kvs)"
    "LeafNode nm pa d \<in> set (tree_nodes (build_node vv kk (path @ ''.'' @ kk)))"
    by auto
  with "6.IH" show ?case by blast
qed (auto simp: show_int_no_quote strip_quotes_def)

theorem leaf_values_no_quote_witness:
  "LeafNode ''0'' ''$.0'' ''ab'' \<in> set (tree_nodes (build_node (JArr [JStr (''a'' @ [CHR 0x22] @ ''b'')]) ''$'' ''$''))
   \<and> CHR 0x22 \<notin> set ''ab''"
  using leaf_values_no_quote [of "''0''" "''$.0''" "''ab''" "JArr [JStr (''a'' @ [CHR 0x22] @ ''b'')]" "''$''" "''$''"]
  by (simp add: js_eval)


text \<open>C31. Every tree \<open>buildNode\<close> returns is well formed: each child's path extends
  its parent's path by a dot and the child's name, and array children are named by their
  indices in order.\<close>

theorem build_node_tree_wf: "tree_wf (build_node v k p)"
proof (induction v k p rule: build_node.induct)
  case (5 xs key path)
  have names: "map node_name (map (\<lambda>(i, item). build_node item (show_nat i) (path @ ''.'' @ show_nat i))
      (enumerate 0 xs)) = map show_nat [0..<length xs]"
    by (simp add: comp_def case_prod_unfold map_enumerate_fst [of show_nat, simplified case_prod_unfold])
  have "list_all (\<lambda>c. node_path c = path @ ''.'' @ node_name c \<and> tree_wf c)
      (map (\<lambda>(i, item). build_node item (show_nat i) (path @ ''.'' @ show_nat i)) (enumerate 0 xs))"
    using "5.IH" by (auto simp: list_all_iff)
  with names show ?case by simp
next
  case (6 kvs key path)
  then show ?case by (auto simp: list_all_iff)
qed simp_all

end
