(* ===== verification/Render.thy ===== *)
theory Render
  imports TreeBuilder
begin

text \<open>
  The drawing of one node by \<open>renderNode\<close> (\<open>src/src/components/JsonTree.js\<close>,
  lines 33--75) and the output of the \<open>JsonTree\<close> component (lines 105--128): either
  the "No data to visualize" placeholder or the tree handed to \<open>react-d3-tree\<close>, which
  calls \<open>renderNode\<close> on every node reachable from the root. The SVG attributes are
  the fields of a record; coordinates are integers because the width is always even.
\<close>

record node_box =
  box_text :: js_string          \<comment> \<open>the \<open>label\<close> shown in the box\<close>
  box_x :: int                   \<comment> \<open>\<open>x={-width / 2}\<close>\<close>
  box_y :: int                   \<comment> \<open>\<open>y={-height / 2}\<close>\<close>
  box_width :: nat
  box_height :: nat
  box_fill :: js_string          \<comment> \<open>\<open>bg\<close>\<close>
  box_stroke :: js_string
  box_stroke_width :: nat
  box_text_fill :: js_string

definition highlight_colour :: js_string where
  "highlight_colour = ''#EF4444''"

text \<open>\<open>label\<close>: a leaf's value (always defined for leaves) or the node's name;
  \<open>width = Math.min(220, Math.max(70, (label || "").length * 8 + 20))\<close>; the node is
  highlighted when \<open>nodeDatum.__path === highlightPath\<close>, which is false while
  \<open>highlightPath\<close> is \<open>null\<close>.\<close>

definition node_label :: "tree_node \<Rightarrow> js_string" where
  "node_label n = (case n of LeafNode _ _ v \<Rightarrow> v | _ \<Rightarrow> node_name n)"

definition box_width_of :: "js_string \<Rightarrow> nat" where
  "box_width_of label = min 220 (max 70 (length label * 8 + 20))"

definition render_node :: "tree_node \<Rightarrow> canonical_path option \<Rightarrow> node_box" where
  "render_node n highlight =
     (let label = node_label n;
          width = box_width_of label;
          hl = (highlight = Some (node_path n))
      in \<lparr>box_text = label,
          box_x = - (int width div 2),
          box_y = - 18,
          box_width = width,
          box_height = 36,
          box_fill = (case n of LeafNode _ _ _ \<Rightarrow> ''#FACC15'' | ArrayNode _ _ _ \<Rightarrow> ''#34D399''
                      | ObjectNode _ _ _ \<Rightarrow> ''#6366F1''),
          box_stroke = (if hl then highlight_colour else ''#1f2937''),
          box_stroke_width = (if hl then 3 else 1),
          box_text_fill = (case n of LeafNode _ _ _ \<Rightarrow> ''#111827'' | _ \<Rightarrow> ''#fff'')\<rparr>)"

datatype tree_view =
    NoData                    \<comment> \<open>"No data to visualize"\<close>
  | TreeView "node_box list"  \<comment> \<open>the boxes of all nodes, in pre-order\<close>

definition json_tree_view :: "json \<Rightarrow> canonical_path option \<Rightarrow> tree_view" where
  "json_tree_view data highlight =
     (case tree_data data of
        None \<Rightarrow> NoData
      | Some t \<Rightarrow> TreeView (map (\<lambda>n. render_node n highlight) (tree_nodes t)))"

declare highlight_colour_def [js_eval] node_label_def [js_eval] box_width_of_def [js_eval]
  render_node_def [js_eval] json_tree_view_def [js_eval]

subsection \<open>Lemmas\<close>

lemma render_node_stroke:
  "box_stroke (render_node n hl) = (if hl = Some (node_path n) then highlight_colour else ''#1f2937'')"
  by (simp add: render_node_def Let_def)

lemma highlight_colour_ne: "highlight_colour \<noteq> ''#1f2937''"
  by (simp add: highlight_colour_def)

subsection \<open>Properties of the rendering\<close>

text \<open>C19. Every box is between 70 and 220 units wide, whatever the length of its
  label, and its width is even, so \<open>-width / 2\<close> is the integer \<open>box_x\<close>: the box
  is centred on the node.\<close>

theorem render_box_bounds:
  "70 \<le> box_width (render_node n hl) \<and> box_width (render_node n hl) \<le> 220
   \<and> 2 * box_x (render_node n hl) = - int (box_width (render_node n hl))"
proof -
  have "even (box_width_of l)" for l
    by (simp add: box_width_of_def min_def max_def)
  then show ?thesis
    by (auto simp: render_node_def Let_def box_width_of_def elim!: evenE)
qed

text \<open>C20. A box is drawn with the highlight colour and the thick stroke exactly when
  the highlight target is the node's path.\<close>

theorem render_highlight_iff:
  "(box_stroke (render_node n hl) = highlight_colour) = (hl = Some (node_path n))
   \<and> (box_stroke_width (render_node n hl) = 3) = (hl = Some (node_path n))"
  by (simp add: render_node_def Let_def highlight_colour_def)

end
