(* ===== verification/App.thy ===== *)
theory App
  imports PathResolver Render
begin

text \<open>
  The \<open>App\<close> component of \<open>src/src/App.js\<close>: its six pieces of React state
  (lines 5--10) as a record, the handlers \<open>handleParse\<close> (lines 12--22) and
  \<open>handleSearch\<close> (lines 25--54), and the user events of the rendered page
  (lines 71, 75, 81, 98, 103) as a deterministic step function. \<open>JSON.parse\<close> is
  not code of the repository: it is a parameter of the model, \<open>None\<close> when it throws.
  A step returns the new state and the blocking \<open>alert\<close> it raises, if any. The
  reachable states are an inductive predicate; the invariants are proved by rule
  induction.
\<close>

record app_state =
  json_input :: js_string                       \<comment> \<open>\<open>jsonInput\<close>\<close>
  data :: json                                  \<comment> \<open>\<open>data\<close>; \<open>null\<close> is \<open>JNull\<close>\<close>
  search_path :: js_string                      \<comment> \<open>\<open>searchPath\<close>\<close>
  highlight_path :: "canonical_path option"     \<comment> \<open>\<open>highlightPath\<close>\<close>
  dark_mode :: bool                             \<comment> \<open>\<open>darkMode\<close>\<close>
  error_msg :: js_string                        \<comment> \<open>\<open>error\<close>\<close>

type_synonym json_parser = "js_string \<Rightarrow> json option"

text \<open>The two messages end in the emoji U+274C, written as its UTF-8 bytes.\<close>

definition cross_mark :: js_string where
  "cross_mark = map char_of [0xE2 :: nat, 0x9D, 0x8C]"

definition invalid_json_msg :: js_string where
  "invalid_json_msg = ''Invalid JSON format '' @ cross_mark"

definition not_found_msg :: js_string where
  "not_found_msg = ''Path not found in JSON data '' @ cross_mark"

definition init_state :: app_state where
  "init_state = \<lparr>json_input = [], data = JNull, search_path = [], highlight_path = None,
                 dark_mode = False, error_msg = []\<rparr>"

subsection \<open>handleParse\<close>

text \<open>On success: \<open>setData(parsed)\<close>, \<open>setError("")\<close>, \<open>setHighlightPath(null)\<close>.
  On a thrown error: \<open>setData(null)\<close> and the message; the highlight is not touched.\<close>

definition handle_parse :: "json_parser \<Rightarrow> app_state \<Rightarrow> app_state" where
  "handle_parse parse s =
     (case parse (json_input s) of
        Some v \<Rightarrow> s\<lparr>data := v, error_msg := [], highlight_path := None\<rparr>
      | None \<Rightarrow> s\<lparr>data := JNull, error_msg := invalid_json_msg\<rparr>)"

subsection \<open>handleSearch\<close>

datatype effect = NoEffect | Alert js_string

definition handle_search :: "app_state \<Rightarrow> app_state \<times> effect" where
  "handle_search s =
     (case search_outcome (data s) (search_path s) of
        ClearHighlight \<Rightarrow> (s\<lparr>highlight_path := None\<rparr>, NoEffect)
      | PathNotFound \<Rightarrow> (s, Alert not_found_msg)
      | HighlightAt p \<Rightarrow> (s\<lparr>highlight_path := Some p\<rparr>, NoEffect))"

subsection \<open>Events\<close>

datatype app_event =
    JsonInputChanged js_string     \<comment> \<open>the textarea's \<open>onChange\<close>\<close>
  | SearchPathChanged js_string    \<comment> \<open>the search input's \<open>onChange\<close>\<close>
  | SearchClicked                  \<comment> \<open>the Search button\<close>
  | DarkModeToggled                \<comment> \<open>the Dark/Light button\<close>
  | ParseClicked                   \<comment> \<open>the Generate Tree button\<close>

fun app_step :: "json_parser \<Rightarrow> app_event \<Rightarrow> app_state \<Rightarrow> app_state \<times> effect" where
  "app_step parse (JsonInputChanged t) s = (s\<lparr>json_input := t\<rparr>, NoEffect)"
| "app_step parse (SearchPathChanged t) s = (s\<lparr>search_path := t\<rparr>, NoEffect)"
| "app_step parse SearchClicked s = handle_search s"
| "app_step parse DarkModeToggled s = (s\<lparr>dark_mode := \<not> dark_mode s\<rparr>, NoEffect)"
| "app_step parse ParseClicked s = (handle_parse parse s, NoEffect)"

text \<open>A run of events from a state, with the alerts it raises in order.\<close>

fun app_run :: "json_parser \<Rightarrow> app_event list \<Rightarrow> app_state \<Rightarrow> app_state \<times> js_string list" where
  "app_run parse [] s = (s, [])"
| "app_run parse (e # es) s =
     (let (t, eff) = app_step parse e s; (u, msgs) = app_run parse es t
      in (u, (case eff of Alert m \<Rightarrow> m # msgs | NoEffect \<Rightarrow> msgs)))"

text \<open>What the page shows: the error paragraph and the tree panel.\<close>

definition app_view :: "app_state \<Rightarrow> tree_view" where
  "app_view s = json_tree_view (data s) (highlight_path s)"

inductive reachable :: "json_parser \<Rightarrow> app_state \<Rightarrow> bool" for parse where
  init: "reachable parse init_state"
| step: "reachable parse s \<Longrightarrow> app_step parse e s = (t, eff) \<Longrightarrow> reachable parse t"

text \<open>The invariant of the reachable states: an error message is only ever the
  invalid-JSON message and comes with an empty document, and a highlight target starts
  with \<open>$.\<close>.\<close>

definition app_inv :: "app_state \<Rightarrow> bool" where
  "app_inv s \<longleftrightarrow>
     (error_msg s = [] \<or> (error_msg s = invalid_json_msg \<and> data s = JNull))
     \<and> (case highlight_path s of None \<Rightarrow> True | Some p \<Rightarrow> take 2 p = ''$.'')"


declare cross_mark_def [js_eval] invalid_json_msg_def [js_eval] not_found_msg_def [js_eval]
  init_state_def [js_eval] handle_parse_def [js_eval] handle_search_def [js_eval]
  app_view_def [js_eval]


subsection \<open>Lemmas\<close>

lemma clean_path_prefix: "take 2 (clean_path q) = ''$.''"
  using clean_path_shape [of q] by auto

lemma handle_search_highlight:
  assumes "handle_search s = (t, eff)"
  shows "t = s\<lparr>highlight_path := highlight_path t\<rparr>"
    and "highlight_path t = None \<or> highlight_path t = highlight_path s
         \<or> highlight_path t = Some (clean_path (search_path s))"
proof -
  show "t = s\<lparr>highlight_path := highlight_path t\<rparr>"
    using assms by (auto simp: handle_search_def split: search_outcome.splits)
  show "highlight_path t = None \<or> highlight_path t = highlight_path s
         \<or> highlight_path t = Some (clean_path (search_path s))"
  proof (cases "search_outcome (data s) (search_path s)")
    case (HighlightAt p)
    then obtain c where "search_walk (Some (data s)) (path_parts (search_path s)) ''$'' = Some (c, p)"
      by (rule search_outcome_HighlightAt)
    then have "p = ''$'' @ dotted (path_parts (search_path s))" by (rule search_walk_path)
    with HighlightAt assms show ?thesis
      using clean_path_parts [of "search_path s"] by (auto simp: handle_search_def)
  qed (use assms in \<open>auto simp: handle_search_def\<close>)
qed

lemma app_step_inv:
  assumes "app_inv s" "app_step parse e s = (t, eff)"
  shows "app_inv t"
proof (cases e)
  case SearchClicked
  with assms(2) have h: "handle_search s = (t, eff)" by simp
  note frame = handle_search_highlight(1) [OF h]
  have "data t = data s" "error_msg t = error_msg s"
    by (subst frame; simp)+
  moreover have "case highlight_path t of None \<Rightarrow> True | Some p \<Rightarrow> take 2 p = ''$.''"
    using handle_search_highlight(2) [OF h] assms(1)
    by (auto simp: app_inv_def clean_path_prefix split: option.splits)
  ultimately show ?thesis using assms(1) by (simp add: app_inv_def)
next
  case ParseClicked
  with assms show ?thesis
    by (auto simp: app_inv_def handle_parse_def split: option.splits)
qed (use assms in \<open>auto simp: app_inv_def\<close>)

lemma reachable_app_inv: "reachable parse s \<Longrightarrow> app_inv s"
proof (induction rule: reachable.induct)
  case init
  show ?case by (simp add: app_inv_def init_state_def)
next
  case (step s e t eff)
  then show ?case by (blast intro: app_step_inv)
qed

subsection \<open>Properties of the App component\<close>

text \<open>C9. In every reachable state, a shown error message is the invalid-JSON message
  and goes with an empty document: the page shows the placeholder, never a stale tree
  beside the error.\<close>

theorem reachable_error_no_document:
  assumes "reachable parse s" "error_msg s \<noteq> []"
  shows "error_msg s = invalid_json_msg \<and> data s = JNull \<and> app_view s = NoData"
  using reachable_app_inv [OF assms(1)] assms(2)
  by (auto simp: app_inv_def app_view_def json_tree_view_def tree_data_eq)

theorem reachable_error_no_document_witness:
  "reachable (\<lambda>_. None) (init_state\<lparr>data := JNull, error_msg := invalid_json_msg\<rparr>)
   \<and> error_msg (init_state\<lparr>data := JNull, error_msg := invalid_json_msg\<rparr>) \<noteq> []
   \<and> app_view (init_state\<lparr>data := JNull, error_msg := invalid_json_msg\<rparr>) = NoData"
proof -
  have r: "reachable (\<lambda>_. None) (init_state\<lparr>data := JNull, error_msg := invalid_json_msg\<rparr>)"
    by (rule reachable.step [OF reachable.init, where e = ParseClicked and eff = NoEffect])
       (simp add: handle_parse_def init_state_def)
  show ?thesis
    using r reachable_error_no_document [OF r] by (simp add: js_eval)
qed

text \<open>C22. In every reachable state the highlight target, when set, starts with
  \<open>$.\<close>: it is only ever set from a normalised query.\<close>

theorem reachable_highlight_prefix:
  assumes "reachable parse s" "highlight_path s = Some p"
  shows "take 2 p = ''$.''"
  using reachable_app_inv [OF assms(1)] assms(2) by (simp add: app_inv_def)

theorem reachable_highlight_prefix_witness:
  "reachable (\<lambda>_. Some (JObj [(''a'', JNull)]))
     (init_state\<lparr>data := JObj [(''a'', JNull)], search_path := ''a'', highlight_path := Some ''$.a''\<rparr>)
   \<and> take 2 ''$.a'' = ''$.''"
proof -
  let ?p = "\<lambda>_ :: js_string. Some (JObj [(''a'', JNull)])"
  have r1: "reachable ?p (init_state\<lparr>data := JObj [(''a'', JNull)]\<rparr>)"
    by (rule reachable.step [OF reachable.init, where e = ParseClicked and eff = NoEffect])
       (simp add: handle_parse_def init_state_def)
  have r2: "reachable ?p (init_state\<lparr>data := JObj [(''a'', JNull)], search_path := ''a''\<rparr>)"
    by (rule reachable.step [OF r1, where e = "SearchPathChanged ''a''" and eff = NoEffect]) simp
  have r3: "reachable ?p (init_state\<lparr>data := JObj [(''a'', JNull)], search_path := ''a'',
                                      highlight_path := Some ''$.a''\<rparr>)"
    by (rule reachable.step [OF r2, where e = SearchClicked and eff = NoEffect])
       (simp add: handle_search_def js_eval)
  show ?thesis using r3 reachable_highlight_prefix [OF r3] by simp
qed

text \<open>C10. A successful parse replaces the document, clears the error and the highlight,
  so that no box of the new tree is drawn highlighted.\<close>

theorem parse_success_clears_highlight:
  assumes "parse (json_input s) = Some v" "app_step parse ParseClicked s = (t, eff)"
  shows "eff = NoEffect \<and> data t = v \<and> error_msg t = [] \<and> highlight_path t = None
         \<and> (case app_view t of NoData \<Rightarrow> True
            | TreeView bs \<Rightarrow> \<forall>b \<in> set bs. box_stroke b \<noteq> highlight_colour)"
  using assms
  by (auto simp: handle_parse_def app_view_def json_tree_view_def render_node_def Let_def
      highlight_colour_def split: option.split)

theorem parse_success_clears_highlight_witness:
  "(\<lambda>_ :: js_string. Some (JObj [(''a'', JNum 1)])) (json_input (init_state\<lparr>highlight_path := Some ''$.a''\<rparr>))
     = Some (JObj [(''a'', JNum 1)])
   \<and> app_step (\<lambda>_. Some (JObj [(''a'', JNum 1)])) ParseClicked (init_state\<lparr>highlight_path := Some ''$.a''\<rparr>)
     = (init_state\<lparr>data := JObj [(''a'', JNum 1)]\<rparr>, NoEffect)
   \<and> app_view (init_state\<lparr>data := JObj [(''a'', JNum 1)]\<rparr>)
     = TreeView [render_node (LeafNode ''a'' ''$.a'' ''1'') None]"
  using parse_success_clears_highlight
    [of "\<lambda>_. Some (JObj [(''a'', JNum 1)])" "init_state\<lparr>highlight_path := Some ''$.a''\<rparr>"
        "JObj [(''a'', JNum 1)]" "init_state\<lparr>data := JObj [(''a'', JNum 1)]\<rparr>" NoEffect]
  by (simp add: js_eval)

text \<open>C18. A failed parse empties the document and shows the error but keeps the
  previous highlight target: the spec's "cleared whenever the source JSON is re-parsed"
  holds only for a parse that succeeds.\<close>

theorem parse_failure_keeps_highlight:
  assumes "parse (json_input s) = None" "app_step parse ParseClicked s = (t, eff)"
  shows "eff = NoEffect \<and> data t = JNull \<and> error_msg t = invalid_json_msg
         \<and> highlight_path t = highlight_path s"
  using assms by (auto simp: handle_parse_def)

theorem parse_failure_keeps_highlight_witness:
  "app_step (\<lambda>_. None) ParseClicked (init_state\<lparr>highlight_path := Some ''$.a''\<rparr>)
     = (init_state\<lparr>highlight_path := Some ''$.a'', error_msg := invalid_json_msg\<rparr>, NoEffect)
   \<and> highlight_path (init_state\<lparr>highlight_path := Some ''$.a'', error_msg := invalid_json_msg\<rparr>)
     = Some ''$.a''"
  using parse_failure_keeps_highlight
    [of "\<lambda>_. None" "init_state\<lparr>highlight_path := Some ''$.a''\<rparr>"
        "init_state\<lparr>highlight_path := Some ''$.a'', error_msg := invalid_json_msg\<rparr>" NoEffect]
  by (simp add: js_eval)

text \<open>C11. Pressing Search raises the not-found alert exactly when the path is not
  found, and then nothing of the state changes (a previous highlight stays); every other
  outcome raises no alert.\<close>

theorem search_alert_keeps_state:
  "(app_step parse SearchClicked s = (s, Alert not_found_msg))
     = (search_outcome (data s) (search_path s) = PathNotFound)
   \<and> snd (app_step parse SearchClicked s)
     = (if search_outcome (data s) (search_path s) = PathNotFound then Alert not_found_msg else NoEffect)"
  by (cases "search_outcome (data s) (search_path s)") (simp_all add: handle_search_def)

text \<open>C12. An empty or blank query, or a search without a (truthy) document, clears the
  highlight silently.\<close>

theorem search_blank_clears:
  assumes "js_trim (search_path s) = [] \<or> \<not> js_truthy (data s)"
  shows "app_step parse SearchClicked s = (s\<lparr>highlight_path := None\<rparr>, NoEffect)"
  using assms by (auto simp: handle_search_def search_outcome_def)

theorem search_blank_clears_witness:
  "js_trim ''  '' = []
   \<and> app_step (\<lambda>_. None) SearchClicked (init_state\<lparr>search_path := ''  '', highlight_path := Some ''$.a''\<rparr>)
     = (init_state\<lparr>search_path := ''  ''\<rparr>, NoEffect)"
  using search_blank_clears [of "init_state\<lparr>search_path := ''  '', highlight_path := Some ''$.a''\<rparr>" "\<lambda>_. None"]
  by (simp add: js_eval)

end
