(* ===== verification/Layout.thy ===== *)
theory Layout
  imports Complex_Main App
begin

text \<open>
  The layout state of the \<open>JsonTree\<close> component (\<open>src/src/components/JsonTree.js\<close>):
  the \<open>translate\<close> offset handed to \<open>react-d3-tree\<close> (line 80), the
  \<open>containerRef\<close> (line 79), which is attached only when the tree branch is rendered
  (line 114) and is \<open>null\<close> under the placeholder, and the \<open>resize\<close> listener that
  the mount effect registers and its cleanup removes (lines 94--103). The effect has no
  dependencies, so it runs once, when the component mounts; later renders with new data
  only attach or detach the container. Coordinates are JavaScript numbers, modelled as
  reals; the bounding rectangle is an input from the browser.
\<close>

record bounding_rect =
  rect_width :: real
  rect_height :: real

record tree_layout =
  translate :: "real \<times> real"       \<comment> \<open>\<open>translate\<close>: \<open>{x, y}\<close>\<close>
  container_attached :: bool      \<comment> \<open>\<open>containerRef.current\<close> is not \<open>null\<close>\<close>
  resize_listener :: bool         \<comment> \<open>\<open>handleResize\<close> is registered on \<open>window\<close>\<close>

definition initial_translate :: "real \<times> real" where
  "initial_translate = (300, 50)"

text \<open>\<open>handleResize\<close>: nothing while the container is detached; otherwise the
  horizontal centre and a sixth of the height, at least 40.\<close>

definition handle_resize :: "bool \<Rightarrow> bounding_rect \<Rightarrow> real \<times> real \<Rightarrow> real \<times> real" where
  "handle_resize attached r t =
     (if \<not> attached then t else (rect_width r / 2, max 40 (rect_height r / 6)))"

text \<open>The container is attached when the component renders the tree, that is when
  \<open>treeData\<close> is not \<open>null\<close>.\<close>

definition tree_rendered :: "json \<Rightarrow> bool" where
  "tree_rendered d \<longleftrightarrow> tree_data d \<noteq> None"

text \<open>Mounting with the document \<open>d\<close>: the first render attaches the container or
  not, then the effect calls \<open>handleResize()\<close> once and adds the listener.\<close>

definition layout_mount :: "json \<Rightarrow> bounding_rect \<Rightarrow> tree_layout" where
  "layout_mount d r =
     \<lparr>translate = handle_resize (tree_rendered d) r initial_translate,
      container_attached = tree_rendered d, resize_listener = True\<rparr>"

datatype layout_event =
    DataChanged json              \<comment> \<open>a render with a new \<open>data\<close> prop\<close>
  | WindowResized bounding_rect   \<comment> \<open>a \<open>resize\<close> event of \<open>window\<close>\<close>
  | Unmounted                     \<comment> \<open>the effect's cleanup\<close>

fun layout_step :: "layout_event \<Rightarrow> tree_layout \<Rightarrow> tree_layout" where
  "layout_step (DataChanged d) l = l\<lparr>container_attached := tree_rendered d\<rparr>"
| "layout_step (WindowResized r) l =
     (if resize_listener l then l\<lparr>translate := handle_resize (container_attached l) r (translate l)\<rparr>
      else l)"
| "layout_step Unmounted l = l\<lparr>resize_listener := False\<rparr>"

inductive layout_reachable :: "tree_layout \<Rightarrow> bool" where
  mount: "layout_reachable (layout_mount d r)"
| step: "layout_reachable l \<Longrightarrow> layout_reachable (layout_step e l)"

declare initial_translate_def [js_eval] handle_resize_def [js_eval] tree_rendered_def [js_eval]
  layout_mount_def [js_eval]

subsection \<open>Lemmas\<close>

lemma handle_resize_y: "40 \<le> snd t \<Longrightarrow> 40 \<le> snd (handle_resize a r t)"
  by (simp add: handle_resize_def)

lemma layout_data_only:
  "translate (fold layout_step (map DataChanged ds) l) = translate l
   \<and> resize_listener (fold layout_step (map DataChanged ds) l) = resize_listener l"
  by (induction ds arbitrary: l) simp_all

subsection \<open>Properties of the layout\<close>

text \<open>C25. The vertical offset of the tree is never less than 40 pixels: the initial
  offset is 50, and every resize takes the maximum with 40.\<close>

theorem layout_translate_y_bound: "layout_reachable l \<Longrightarrow> 40 \<le> snd (translate l)"
proof (induction rule: layout_reachable.induct)
  case (mount d r)
  show ?case by (simp add: layout_mount_def handle_resize_y initial_translate_def)
next
  case (step l e)
  then show ?case by (cases e) (simp_all add: handle_resize_y)
qed

theorem layout_translate_y_bound_witness:
  "layout_reachable (layout_step (WindowResized \<lparr>rect_width = 600, rect_height = 120\<rparr>)
     (layout_mount (JNum 1) \<lparr>rect_width = 800, rect_height = 600\<rparr>))
   \<and> 40 \<le> snd (translate (layout_step (WindowResized \<lparr>rect_width = 600, rect_height = 120\<rparr>)
     (layout_mount (JNum 1) \<lparr>rect_width = 800, rect_height = 600\<rparr>)))"
  using layout_translate_y_bound [OF layout_reachable.step [OF layout_reachable.mount]]
    layout_reachable.step [OF layout_reachable.mount]
  by blast

text \<open>C26. The tree is not centred by a parse: \<open>App\<close> mounts \<open>JsonTree\<close> once,
  with its initial \<open>data\<close> \<open>null\<close>, when the placeholder is shown and the container is
  detached, so the mount-time \<open>handleResize()\<close> does nothing; the effect does not run
  again, so however many documents are parsed afterwards the tree keeps the default
  offset (300, 50). Only a resize of the window, while a document is shown, centres it.\<close>

theorem layout_not_centred_until_resize:
  "translate (fold layout_step (map DataChanged ds) (layout_mount (data init_state) r))
     = initial_translate
   \<and> (js_truthy d \<longrightarrow>
      translate (layout_step (WindowResized r')
        (fold layout_step (map DataChanged (ds @ [d])) (layout_mount (data init_state) r)))
      = (rect_width r' / 2, max 40 (rect_height r' / 6)))"
proof -
  let ?l = "layout_mount (data init_state) r"
  have "\<not> tree_rendered (data init_state)"
    by (simp add: tree_rendered_def init_state_def tree_data_eq)
  then have init: "translate ?l = initial_translate" "resize_listener ?l"
    by (simp_all add: layout_mount_def handle_resize_def)
  have "js_truthy d \<Longrightarrow> container_attached (fold layout_step (map DataChanged (ds @ [d])) ?l)"
    by (simp add: tree_rendered_def tree_data_None_iff)
  with init layout_data_only [of ds ?l] show ?thesis
    by (simp add: handle_resize_def)
qed

theorem layout_not_centred_until_resize_witness:
  "js_truthy (JNum 1)
   \<and> translate (layout_step (WindowResized \<lparr>rect_width = 800, rect_height = 600\<rparr>)
       (fold layout_step (map DataChanged [JNull, JNum 1]) (layout_mount (data init_state)
          \<lparr>rect_width = 800, rect_height = 600\<rparr>))) = (400, 100)"
  using layout_not_centred_until_resize [of "[JNull]" "\<lparr>rect_width = 800, rect_height = 600\<rparr>"
      "JNum 1" "\<lparr>rect_width = 800, rect_height = 600\<rparr>"]
  by simp

text \<open>C27. After the effect's cleanup has removed the listener, no resize of the
  window moves the tree any more.\<close>

theorem layout_cleanup_stops_resize:
  "translate (fold layout_step (map WindowResized rs) (layout_step Unmounted l)) = translate l"
proof -
  have "\<not> resize_listener l' \<Longrightarrow> fold layout_step (map WindowResized rs) l' = l'" for l'
    by (induction rs) simp_all
  then show ?thesis by simp
qed

end
