(* ===== verification/Page.thy ===== *)
theory Page
  imports App
begin

text \<open>
  What the page shows and the two input components of \<open>src/src/components\<close>. The
  page of \<open>App\<close> (\<open>src/src/App.js\<close>, lines 56--121) is a record of what the user sees:
  the \<open>dark\<close> class, the values of the search input and of the textarea, the label of
  the theme button, the error paragraph and the tree panel. \<open>JsonInput\<close>
  (\<open>src/src/components/JsonInput.js\<close>) keeps the typed text in its own state and
  hands it to \<open>onParse\<close>; \<open>SearchBar\<close> (\<open>src/src/components/SearchBar.js\<close>) is
  controlled by its parent and forwards its two events. \<open>App\<close> does not use either
  component; their props are named after App's state and handlers, and the wiring those
  names call for (\<open>onParse={handleParse}\<close>, \<open>setSearchPath={setSearchPath}\<close>,
  \<open>onSearch={handleSearch}\<close>) is the step function \<open>widget_step\<close>.
\<close>

subsection \<open>The page of App\<close>

text \<open>The labels of the theme button, with their emoji as UTF-8 bytes:
  \<open>"\<dots> Light"\<close> starts with U+2600 U+FE0F, \<open>"\<dots> Dark"\<close> with U+1F319.\<close>

definition light_label :: js_string where
  "light_label = map char_of [0xE2 :: nat, 0x98, 0x80, 0xEF, 0xB8, 0x8F] @ '' Light''"

definition dark_label :: js_string where
  "dark_label = map char_of [0xF0 :: nat, 0x9F, 0x8C, 0x99] @ '' Dark''"

record page =
  page_dark :: bool                      \<comment> \<open>the root \<open>div\<close> has the class \<open>dark\<close>\<close>
  page_search_value :: js_string         \<comment> \<open>the search input's \<open>value\<close>\<close>
  page_theme_label :: js_string          \<comment> \<open>the text of the theme button\<close>
  page_textarea_value :: js_string       \<comment> \<open>the textarea's \<open>value\<close>\<close>
  page_error :: "js_string option"       \<comment> \<open>the red paragraph, if rendered\<close>
  page_tree :: tree_view                 \<comment> \<open>\<open><JsonTree data highlightPath/>\<close>\<close>

text \<open>\<open>{error && <p>{error}</p>}\<close>: the empty string is falsy and renders nothing.\<close>

definition error_line :: "js_string \<Rightarrow> js_string option" where
  "error_line e = (if e = [] then None else Some e)"

definition page_view :: "app_state \<Rightarrow> page" where
  "page_view s =
     \<lparr>page_dark = dark_mode s, page_search_value = search_path s,
      page_theme_label = (if dark_mode s then light_label else dark_label),
      page_textarea_value = json_input s, page_error = error_line (error_msg s),
      page_tree = json_tree_view (data s) (highlight_path s)\<rparr>"

subsection \<open>JsonInput\<close>

record json_input_widget =
  ji_input :: js_string     \<comment> \<open>\<open>const [input, setInput] = useState("")\<close>\<close>

definition json_input_init :: json_input_widget where
  "json_input_init = \<lparr>ji_input = []\<rparr>"

datatype json_input_event =
    InputTyped js_string     \<comment> \<open>the textarea's \<open>onChange\<close>: \<open>setInput(e.target.value)\<close>\<close>
  | GenerateClicked          \<comment> \<open>the button: \<open>onParse(input)\<close>\<close>

text \<open>A step returns the new local state and the argument of the \<open>onParse\<close> call it
  makes, if any.\<close>

fun json_input_step :: "json_input_event \<Rightarrow> json_input_widget \<Rightarrow> json_input_widget \<times> js_string option" where
  "json_input_step (InputTyped t) w = (w\<lparr>ji_input := t\<rparr>, None)"
| "json_input_step GenerateClicked w = (w, Some (ji_input w))"

text \<open>What the component shows: the textarea's value and the error paragraph.\<close>

definition json_input_view :: "json_input_widget \<Rightarrow> js_string \<Rightarrow> js_string \<times> js_string option" where
  "json_input_view w error = (ji_input w, error_line error)"

subsection \<open>SearchBar\<close>

datatype search_bar_event =
    PathTyped js_string      \<comment> \<open>the input's \<open>onChange\<close>\<close>
  | SearchPressed            \<comment> \<open>the Search button\<close>

datatype search_bar_call =
    CallSetSearchPath js_string   \<comment> \<open>\<open>setSearchPath(e.target.value)\<close>\<close>
  | CallOnSearch                  \<comment> \<open>\<open>onSearch\<close>\<close>

fun search_bar_handler :: "search_bar_event \<Rightarrow> search_bar_call" where
  "search_bar_handler (PathTyped t) = CallSetSearchPath t"
| "search_bar_handler SearchPressed = CallOnSearch"

subsection \<open>The two components wired into App\<close>

record widget_page =
  wp_input :: json_input_widget
  wp_app :: app_state

datatype widget_event =
    WJsonInput json_input_event
  | WSearchBar search_bar_event
  | WThemeToggled

text \<open>\<open>onParse={handleParse}\<close>: \<open>handleParse\<close> takes no parameter and reads App's own
  \<open>jsonInput\<close>, so the text passed to it is dropped.\<close>

fun widget_step :: "json_parser \<Rightarrow> widget_event \<Rightarrow> widget_page \<Rightarrow> widget_page \<times> effect" where
  "widget_step parse (WJsonInput e) p =
     (let (w, call) = json_input_step e (wp_input p)
      in (p\<lparr>wp_input := w,
            wp_app := (case call of None \<Rightarrow> wp_app p | Some _ \<Rightarrow> handle_parse parse (wp_app p))\<rparr>,
          NoEffect))"
| "widget_step parse (WSearchBar e) p =
     (case search_bar_handler e of
        CallSetSearchPath t \<Rightarrow> (p\<lparr>wp_app := (wp_app p)\<lparr>search_path := t\<rparr>\<rparr>, NoEffect)
      | CallOnSearch \<Rightarrow> (let (s, eff) = handle_search (wp_app p) in (p\<lparr>wp_app := s\<rparr>, eff)))"
| "widget_step parse WThemeToggled p =
     (p\<lparr>wp_app := (wp_app p)\<lparr>dark_mode := \<not> dark_mode (wp_app p)\<rparr>\<rparr>, NoEffect)"

text \<open>The inline controls of App that each component event stands for.\<close>

fun inline_input_event :: "json_input_event \<Rightarrow> app_event" where
  "inline_input_event (InputTyped t) = JsonInputChanged t"
| "inline_input_event GenerateClicked = ParseClicked"

fun inline_search_event :: "search_bar_event \<Rightarrow> app_event" where
  "inline_search_event (PathTyped t) = SearchPathChanged t"
| "inline_search_event SearchPressed = SearchClicked"

declare light_label_def [js_eval] dark_label_def [js_eval] error_line_def [js_eval]
  page_view_def [js_eval] json_input_init_def [js_eval] json_input_view_def [js_eval]

subsection \<open>Lemmas\<close>


subsection \<open>Properties of the page and of the components\<close>



text \<open>C29. \<open>JsonInput\<close> is a drop-in replacement for App's inline textarea and
  Generate Tree button: holding the same text, it changes its text as the textarea
  changes \<open>jsonInput\<close>, and the text it hands to \<open>onParse\<close> is the one App's
  \<open>handleParse\<close> parses, so parsing the passed text is App's Generate Tree.\<close>

theorem json_input_simulates_textarea:
  assumes "ji_input w = json_input s"
  shows "ji_input (fst (json_input_step e w)) = json_input (fst (app_step parse (inline_input_event e) s))
     \<and> fst (app_step parse (inline_input_event e) s)
         = (case snd (json_input_step e w) of
              None \<Rightarrow> s\<lparr>json_input := ji_input (fst (json_input_step e w))\<rparr>
            | Some t \<Rightarrow> handle_parse parse (s\<lparr>json_input := t\<rparr>))"
  using assms by (cases e) (simp_all add: handle_parse_def split: option.split)

theorem json_input_simulates_textarea_witness:
  "ji_input \<lparr>ji_input = ''1''\<rparr> = json_input (init_state\<lparr>json_input := ''1''\<rparr>)
   \<and> fst (app_step (\<lambda>_. Some JNull) (inline_input_event GenerateClicked) (init_state\<lparr>json_input := ''1''\<rparr>))
     = handle_parse (\<lambda>_. Some JNull) (init_state\<lparr>json_input := ''1''\<rparr>)"
  using json_input_simulates_textarea [of "\<lparr>ji_input = ''1''\<rparr>" "init_state\<lparr>json_input := ''1''\<rparr>"
      GenerateClicked "\<lambda>_. Some JNull"]
  by (simp add: js_eval)

text \<open>C30. \<open>SearchBar\<close> wired to App's \<open>setSearchPath\<close> and \<open>handleSearch\<close>
  behaves exactly as App's inline search input and Search button: same state, same
  alert.\<close>

theorem search_bar_refines_inline:
  "widget_step parse (WSearchBar e) p
     = (p\<lparr>wp_app := fst (app_step parse (inline_search_event e) (wp_app p))\<rparr>,
        snd (app_step parse (inline_search_event e) (wp_app p)))"
  by (cases e) (simp_all split: prod.split)

end
