(* ===== verification/Spec2Isabelle.thy ===== *)
theory Spec2Isabelle
  imports Layout Page
begin

text \<open>
  \<^bold>\<open>A verification library for json-tree-visualizer.\<close>

  The repository is a React page (\<open>src/src/App.js\<close>) that parses JSON typed by the user,
  draws it as a tree (\<open>src/src/components/JsonTree.js\<close>) and highlights the node named by
  a dot-path query. Its logic has four parts, each modelled by one theory:
  \<^item> \<^bold>\<open>Tree builder\<close> (theory \<open>TreeBuilder\<close>): \<open>buildNode\<close> (JsonTree.js 5--30) is
    \<open>build_node\<close>, a \<open>function\<close> over the nested \<open>json\<close> datatype whose termination
    measure is the size of the value; the memoised \<open>treeData\<close> (82--92) with its
    truthiness guard and root collapsing is \<open>tree_data\<close>. The three object shapes the code
    returns are the constructors of \<open>tree_node\<close>.
  \<^item> \<^bold>\<open>Path search\<close> (theory \<open>PathResolver\<close>): the pure part of \<open>handleSearch\<close>
    (App.js 25--54): the two guards, the normalisation by two regular expressions
    (\<open>strip_root_prefix\<close>, \<open>collapse_dots\<close>, \<open>clean_path\<close>), the split
    (\<open>path_parts\<close>), the loop (\<open>search_walk\<close>, structural recursion on the segment list
    carrying \<open>current\<close> and \<open>validPath\<close>) and its outcome (\<open>search_outcome\<close>: clear,
    alert, or highlight).
  \<^item> \<^bold>\<open>Renderer\<close> (theory \<open>Render\<close>): \<open>renderNode\<close> (JsonTree.js 33--75) as
    \<open>render_node\<close> producing a record of SVG attributes, and the component's output
    (105--128) as \<open>json_tree_view\<close>.
  \<^item> \<^bold>\<open>App state machine\<close> (theory \<open>App\<close>): the six \<open>useState\<close> variables
    (App.js 5--10) as the record \<open>app_state\<close>; \<open>handleParse\<close> (12--22) as
    \<open>handle_parse\<close>, taking \<open>JSON.parse\<close> as a parameter \<open>string \<Rightarrow> json option\<close>
    (\<open>None\<close> when it throws); \<open>handleSearch\<close> as \<open>handle_search\<close>, returning the state
    and the \<open>alert\<close> effect; the page's events as \<open>app_step\<close>, runs as \<open>app_run\<close>, and
    the reachable states as the inductive \<open>reachable\<close>.
  \<^item> \<^bold>\<open>Page and input components\<close> (theory \<open>Page\<close>): App's JSX (App.js 56--121) as
    \<open>page_view\<close>, a record of what the user sees; \<open>JsonInput\<close> (its own \<open>input\<close>
    state, \<open>json_input_step\<close> returning the argument of the \<open>onParse\<close> call) and
    \<open>SearchBar\<close> (\<open>search_bar_handler\<close>, the parent calls it makes). App uses neither;
    \<open>widget_step\<close> is the wiring their props are named for.
  \<^item> \<^bold>\<open>Tree layout\<close> (theory \<open>Layout\<close>): JsonTree's \<open>translate\<close> state, the
    \<open>containerRef\<close> attached only on the tree branch, and the mount effect with its resize
    listener and cleanup (JsonTree.js 79--114) as \<open>layout_mount\<close> and \<open>layout_step\<close>;
    coordinates are reals, the bounding rectangle an input.
  They interact through the parsed document: \<open>App\<close> holds it and the highlight target,
  hands both to \<open>JsonTree\<close>, which builds the tree and marks the node whose \<open>__path\<close>
  equals the target; the search computes the target from the same document.

  Below them, theory \<open>Json\<close> models the value \<open>JSON.parse\<close> returns and the JavaScript
  semantics the code relies on (truthiness, \<open>Object.entries\<close>/\<open>Object.keys\<close> order with
  array-index keys first, \<open>hasOwnProperty\<close> on objects, arrays and strings, property
  reads with \<open>undefined\<close> as \<open>None\<close>), with the type invariant \<open>json_wf\<close> (no repeated
  key) and \<open>json_at\<close>, the replay of a path by key and index lookup. Theory \<open>JsString\<close>
  models the string built-ins called (\<open>trim\<close>, \<open>split\<close>, \<open>String(n)\<close>, \<open>parseInt\<close>)
  and proves the round trips between them (\<open>parse_int_show_nat\<close>, \<open>split_on_dotted\<close>,
  \<open>dotted_inj\<close>, and \<open>parseInt(String(i)) = i\<close>). Theory \<open>JsRegex\<close> gives the
  reference semantics of \<open>String.prototype.replace\<close> with a regular-expression literal
  (backtracking matcher \<open>rx_match\<close>, the \<open>lastIndex\<close> scan \<open>find_match\<close>, the global
  loop \<open>all_matches\<close> with its empty-match advance, \<open>js_replace\<close>) for the subset of
  patterns the code writes, and the three literals of the code. Theory \<open>Prelude\<close> holds
  the shared list and multiset lemmas, the type names and the \<open>js_eval\<close> collection of
  definitions that the witnesses unfold to evaluate the model on concrete inputs by
  \<open>simp\<close>.

  What the lemma groups show: the tree builder's nodes carry the paths of their positions
  (C2), count the document's primitives (C4), have the expected fan-out (C5), form a
  well-formed tree (C31), collapse a single-key root (C6, C7), render nothing for falsy
  documents (C17) and show no double quote (C21). The specialised string operations equal
  the reference semantics of \<open>replace\<close> on the code's literals (C23 the query
  normalisation, C24 the quote removal). The search highlights the normalised query (C3),
  and, on documents with simple keys, finds every node path but the root's (C1, here); it
  also accepts paths of no node (C13 out-of-range indices, C14 \<open>length\<close>), never finds
  \<open>$\<close> (C15), and halves runs of dots instead of collapsing them (C16). Tree paths are
  unique for dot-free keys, so at most one box is highlighted (C8, here), and a search for
  a displayed node's path highlights exactly that node's box (C32, here). Boxes are
  70--220 wide and centred (C19) and highlighted exactly at the target (C20). The App
  keeps an invariant over all reachable states (C9, C22); parsing clears the highlight only
  on success (C10, C18); Search alerts exactly when the path is not found, and then changes
  nothing (C11); a blank query clears silently (C12); any accepted document can be shown
  from any state (C28). The components: \<open>JsonInput\<close> simulates the inline textarea
  (C29) and \<open>SearchBar\<close> refines the inline search controls (C30). The layout keeps the
  tree at least 40 from the top (C25), is not centred by a parse until the window is
  resized (C26), and ignores resizes after the cleanup (C27). Library lemmas that are not
  claims about the code: \<open>parseInt(String(i)) = i\<close> (\<open>parse_int_show_int\<close>), the order
  of \<open>Object.keys\<close> (\<open>js_keys_order\<close>), and the bound on the global replace loop
  (\<open>all_matches_count\<close>).

  Bounds and fuel: every loop of the code is a traversal of a finite structure, so all
  recursion is structural or by a measure (the size of the value for \<open>buildNode\<close>, the
  distance of \<open>lastIndex\<close> to the end of the string for the regex scan); no fuel is
  used. Numbers are integral (\<open>JNum int\<close>), where \<open>String(n)\<close> and \<open>parseInt\<close> are
  exact below \<open>2^53\<close>; code units are 8-bit \<open>char\<close>s, so whitespace is the Latin-1
  part of JavaScript's set and the emoji of the messages and labels are written as UTF-8
  bytes. Layout coordinates are reals (JavaScript numbers without rounding).

  Not modelled: \<open>JSON.parse\<close> itself (a runtime library: a parameter); the layout done by
  \<open>react-d3-tree\<close> beyond drawing every node once with \<open>renderNode\<close>; CSS classes other
  than \<open>dark\<close>, and the constant SVG attributes, which carry no behaviour.
\<close>

section \<open>Lemmas shared by the properties\<close>

lemma json_keys_simple_dotfree: "json_keys_simple v \<Longrightarrow> json_keys_dotfree v"
proof (induction v)
  case (JArr xs)
  then show ?case by (simp add: list_all_iff)
next
  case (JObj kvs)
  then show ?case
    by (force simp: list_all_iff simple_key_def)
qed simp_all

lemma tree_data_paths_distinct:
  assumes "json_wf v" "json_keys_dotfree v" "tree_data v = Some t"
  shows "distinct (map node_path (tree_nodes t))"
  using tree_data_Some_cases [OF assms(3)]
proof
  assume "t = build_node v ''$'' ''$''"
  then show ?thesis using build_node_paths_distinct [OF assms(1,2)] by simp
next
  assume "\<exists>k x. v = JObj [(k, x)] \<and> t = build_node x k (''$.'' @ k)"
  then obtain k x where v: "v = JObj [(k, x)]" and t: "t = build_node x k (''$.'' @ k)" by blast
  from assms(1,2) v have "json_wf x" "json_keys_dotfree x" by simp_all
  with t show ?thesis using build_node_paths_distinct by simp
qed

section \<open>Properties spanning the tree builder, the search and the renderer\<close>

text \<open>C1. Round trip between the two components: on a well-formed document whose keys
  are simple (non-empty, without a dot, not ending in whitespace), searching the path of
  any node of the tree other than the root highlights exactly that path.\<close>

theorem search_finds_tree_paths:
  assumes "json_wf v" "json_keys_simple v"
    and "n \<in> set (tree_nodes (build_node v ''$'' ''$''))" "node_path n \<noteq> ''$''"
  shows "search_outcome v (node_path n) = HighlightAt (node_path n)"
proof -
  obtain segs v' where at: "json_at v segs = Some v'"
    and n: "n = build_node v' (if segs = [] then ''$'' else last segs) (''$'' @ dotted segs)"
    using build_node_nodes_replay [OF assms(1,3)] by blast
  then have path: "node_path n = ''$'' @ dotted segs" by simp
  with assms(4) have "segs \<noteq> []" by auto
  then show ?thesis
    unfolding path using search_outcome_json_at [OF at _ assms(2)] by blast
qed

theorem search_finds_tree_paths_witness:
  "json_wf (JObj [(''a'', JArr [JNum 1, JNum 2])]) \<and> json_keys_simple (JObj [(''a'', JArr [JNum 1, JNum 2])])
   \<and> LeafNode ''1'' ''$.a.1'' ''2'' \<in> set (tree_nodes (build_node (JObj [(''a'', JArr [JNum 1, JNum 2])]) ''$'' ''$''))
   \<and> search_outcome (JObj [(''a'', JArr [JNum 1, JNum 2])]) ''$.a.1'' = HighlightAt ''$.a.1''"
  using search_finds_tree_paths [of "JObj [(''a'', JArr [JNum 1, JNum 2])]" "LeafNode ''1'' ''$.a.1'' ''2''"]
  by (simp add: js_eval)

text \<open>C8. On a well-formed document whose keys contain no dot, at most one box of the
  displayed tree is drawn highlighted, whatever the highlight target: tree paths are
  unique identifiers. (With a dotted key, \<open>{"a.b": 1, "a": {"b": 2}}\<close> has two nodes
  with the path \<open>$.a.b\<close>.)\<close>

theorem highlight_marks_one_node:
  assumes "json_wf v" "json_keys_dotfree v" "tree_data v = Some t"
    and "n1 \<in> set (tree_nodes t)" "n2 \<in> set (tree_nodes t)"
    and "box_stroke (render_node n1 hl) = highlight_colour"
    and "box_stroke (render_node n2 hl) = highlight_colour"
  shows "n1 = n2"
proof -
  have "hl = Some (node_path n1)" "hl = Some (node_path n2)"
    using assms(6,7) highlight_colour_ne by (auto simp: render_node_stroke split: if_splits)
  then have paths: "node_path n1 = node_path n2" by simp
  have sub: "set (tree_nodes t) \<subseteq> set (tree_nodes (build_node v ''$'' ''$''))"
    using tree_data_Some_cases [OF assms(3)] by auto
  show ?thesis
  proof (rule build_node_paths_inj [OF assms(1,2) _ _ paths])
    show "n1 \<in> set (tree_nodes (build_node v ''$'' ''$''))" using sub assms(4) by blast
    show "n2 \<in> set (tree_nodes (build_node v ''$'' ''$''))" using sub assms(5) by blast
  qed
qed

theorem highlight_marks_one_node_witness:
  "json_wf (JObj [(''a'', JNum 1)]) \<and> json_keys_dotfree (JObj [(''a'', JNum 1)])
   \<and> tree_data (JObj [(''a'', JNum 1)]) = Some (LeafNode ''a'' ''$.a'' ''1'')
   \<and> box_stroke (render_node (LeafNode ''a'' ''$.a'' ''1'') (Some ''$.a'')) = highlight_colour"
  using highlight_marks_one_node [of "JObj [(''a'', JNum 1)]" "LeafNode ''a'' ''$.a'' ''1''"
      "LeafNode ''a'' ''$.a'' ''1''" "LeafNode ''a'' ''$.a'' ''1''" "Some ''$.a''"]
  by (simp add: js_eval)


text \<open>C32. The spec's render contract, end to end on the page: on a well-formed document
  with simple keys, typing the path of any displayed node but the root into the search
  field and pressing Search raises no alert, sets the highlight to that path, and then
  exactly one box of the displayed tree, that node's, is drawn with the highlight
  colour.\<close>

theorem search_highlights_exactly_one:
  assumes "json_wf (data s)" "json_keys_simple (data s)" "tree_data (data s) = Some t"
    and "n \<in> set (tree_nodes t)" "node_path n \<noteq> ''$''"
  shows "app_run parse [SearchPathChanged (node_path n), SearchClicked] s
           = (s\<lparr>search_path := node_path n, highlight_path := Some (node_path n)\<rparr>, [])
         \<and> filter (\<lambda>m. box_stroke (render_node m (Some (node_path n))) = highlight_colour) (tree_nodes t)
           = [n]"
proof
  have "n \<in> set (tree_nodes (build_node (data s) ''$'' ''$''))"
    using tree_data_Some_cases [OF assms(3)] assms(4) by auto
  then obtain segs v' where at: "json_at (data s) segs = Some v'"
    and n: "n = build_node v' (if segs = [] then ''$'' else last segs) (''$'' @ dotted segs)"
    using build_node_nodes_replay [OF assms(1)] by blast
  then have path: "node_path n = ''$'' @ dotted segs" by simp
  with assms(5) have "segs \<noteq> []" by auto
  then have "search_outcome (data s) (node_path n) = HighlightAt (node_path n)"
    unfolding path using search_outcome_json_at [OF at _ assms(2)] by blast
  then show "app_run parse [SearchPathChanged (node_path n), SearchClicked] s
      = (s\<lparr>search_path := node_path n, highlight_path := Some (node_path n)\<rparr>, [])"
    by (simp add: handle_search_def)
next
  have "distinct (map node_path (tree_nodes t))"
    using tree_data_paths_distinct [OF assms(1) json_keys_simple_dotfree [OF assms(2)] assms(3)] .
  then have "filter (\<lambda>m. node_path m = node_path n) (tree_nodes t) = [n]"
    using assms(4) by (rule filter_distinct_key)
  moreover have "(box_stroke (render_node m (Some (node_path n))) = highlight_colour)
      = (node_path m = node_path n)" for m
    using highlight_colour_ne by (auto simp: render_node_stroke)
  ultimately show "filter (\<lambda>m. box_stroke (render_node m (Some (node_path n))) = highlight_colour)
      (tree_nodes t) = [n]"
    by simp
qed

theorem search_highlights_exactly_one_witness:
  "json_wf (data (init_state\<lparr>data := JArr [JNum 1, JNum 2]\<rparr>))
   \<and> json_keys_simple (data (init_state\<lparr>data := JArr [JNum 1, JNum 2]\<rparr>))
   \<and> tree_data (data (init_state\<lparr>data := JArr [JNum 1, JNum 2]\<rparr>))
       = Some (ArrayNode ''$'' ''$'' [LeafNode ''0'' ''$.0'' ''1'', LeafNode ''1'' ''$.1'' ''2''])
   \<and> filter (\<lambda>m. box_stroke (render_node m (Some ''$.1'')) = highlight_colour)
       (tree_nodes (ArrayNode ''$'' ''$'' [LeafNode ''0'' ''$.0'' ''1'', LeafNode ''1'' ''$.1'' ''2'']))
     = [LeafNode ''1'' ''$.1'' ''2'']"
  using search_highlights_exactly_one [of "init_state\<lparr>data := JArr [JNum 1, JNum 2]\<rparr>"
      "ArrayNode ''$'' ''$'' [LeafNode ''0'' ''$.0'' ''1'', LeafNode ''1'' ''$.1'' ''2'']"
      "LeafNode ''1'' ''$.1'' ''2''" "\<lambda>_. None"]
  by (simp add: js_eval)

end
